theory Spec2Isabelle
  imports Complex_Main "HOL-Library.Word" "HOL-Library.Log_Nat"
begin

section \<open>GtkStatusbar: the message stack (gtk/gtkstatusbar.c)\<close>

text \<open>
  A \<^verbatim>\<open>guint\<close> is a 32-bit unsigned integer: \<^verbatim>\<open>seq_context_id++\<close> and
  \<^verbatim>\<open>seq_message_id++\<close> wrap around at \<open>2^32\<close>. A \<^verbatim>\<open>gchar *\<close> that may be
  \<^verbatim>\<open>NULL\<close> is a \<open>string option\<close>.
\<close>

type_synonym guint = "32 word"

text \<open>\<^verbatim>\<open>struct _GtkStatusbarMsg { gchar *text; guint context_id; guint message_id; }\<close>\<close>

record GtkStatusbarMsg =
  msg_text :: "string option"
  context_id :: guint
  message_id :: guint

datatype signal_id = SIGNAL_TEXT_PUSHED | SIGNAL_TEXT_POPPED

text \<open>
  The private data of a statusbar, together with the parts of the widget that the
  functions below read or write: the text of the \<^verbatim>\<open>label\<close> child, the GObject data
  list of the statusbar (a key is absent exactly when \<^verbatim>\<open>g_object_get_data\<close> returns
  \<^verbatim>\<open>NULL\<close>), and the log of the signals emitted so far, oldest first.
  \<^verbatim>\<open>messages\<close> and \<^verbatim>\<open>keys\<close> are \<^verbatim>\<open>GSList\<close>s, head first.
\<close>

record GtkStatusbar =
  label :: string
  messages :: "GtkStatusbarMsg list"
  keys :: "string list"
  seq_context_id :: guint
  seq_message_id :: guint
  object_data :: "string \<rightharpoonup> guint"
  emitted :: "(signal_id \<times> guint \<times> string option) list"

text \<open>
  \<^verbatim>\<open>gtk_statusbar_init\<close>. The label child is built by \<^verbatim>\<open>gtk_widget_init_template\<close>
  from the resource \<^verbatim>\<open>gtkstatusbar.ui\<close>; its initial text is the parameter \<open>tmpl\<close>.
\<close>

definition gtk_statusbar_init :: "string \<Rightarrow> GtkStatusbar" where
  "gtk_statusbar_init tmpl =
     \<lparr>label = tmpl, messages = [], keys = [], seq_context_id = 1, seq_message_id = 1,
      object_data = Map.empty, emitted = []\<rparr>"

text \<open>\<^verbatim>\<open>gtk_statusbar_update\<close>: a \<^verbatim>\<open>NULL\<close> text is shown as the empty string.\<close>

definition gtk_statusbar_update :: "GtkStatusbar \<Rightarrow> guint \<Rightarrow> string option \<Rightarrow> GtkStatusbar" where
  "gtk_statusbar_update statusbar ctx txt =
     statusbar\<lparr>label := (case txt of None \<Rightarrow> [] | Some t \<Rightarrow> t)\<rparr>"

text \<open>
  \<^verbatim>\<open>g_signal_emit\<close> for the two signals of the class. Both class handlers are
  \<^verbatim>\<open>gtk_statusbar_update\<close> (\<^verbatim>\<open>class->text_pushed\<close>, \<^verbatim>\<open>class->text_popped\<close>); no
  other handler is connected in this model.
\<close>

definition g_signal_emit ::
  "GtkStatusbar \<Rightarrow> signal_id \<Rightarrow> guint \<Rightarrow> string option \<Rightarrow> GtkStatusbar" where
  "g_signal_emit statusbar sig ctx txt =
     gtk_statusbar_update (statusbar\<lparr>emitted := emitted statusbar @ [(sig, ctx, txt)]\<rparr>) ctx txt"

text \<open>
  GObject data: \<^verbatim>\<open>g_object_get_data\<close> returns \<^verbatim>\<open>NULL\<close> for a key that is not set,
  and \<^verbatim>\<open>GPOINTER_TO_UINT (NULL)\<close> is 0; \<^verbatim>\<open>g_object_set_data_full\<close> with a
  \<^verbatim>\<open>NULL\<close> pointer (\<^verbatim>\<open>GUINT_TO_POINTER (0)\<close>) removes the key.
\<close>

definition g_object_get_data :: "GtkStatusbar \<Rightarrow> string \<Rightarrow> guint" where
  "g_object_get_data statusbar key =
     (case object_data statusbar key of None \<Rightarrow> 0 | Some v \<Rightarrow> v)"

definition g_object_set_data_full :: "GtkStatusbar \<Rightarrow> string \<Rightarrow> guint \<Rightarrow> GtkStatusbar" where
  "g_object_set_data_full statusbar key v =
     statusbar\<lparr>object_data :=
       (if v = 0 then (object_data statusbar)(key := None)
        else (object_data statusbar)(key \<mapsto> v))\<rparr>"

text \<open>
  \<^verbatim>\<open>gtk_statusbar_get_context_id\<close>: returns the id and the new state. A \<^verbatim>\<open>NULL\<close>
  description fails the \<^verbatim>\<open>g_return_val_if_fail\<close> check and returns 0.
\<close>

definition gtk_statusbar_get_context_id ::
  "GtkStatusbar \<Rightarrow> string option \<Rightarrow> guint \<times> GtkStatusbar" where
  "gtk_statusbar_get_context_id statusbar context_description =
     (case context_description of
        None \<Rightarrow> (0, statusbar)
      | Some d \<Rightarrow>
          let string = ''gtk-status-bar-context:'' @ d;
              id = g_object_get_data statusbar string
          in if id = 0
             then let id' = seq_context_id statusbar;
                      s1 = statusbar\<lparr>seq_context_id := seq_context_id statusbar + 1\<rparr>;
                      s2 = g_object_set_data_full s1 string id'
                  in (id', s2\<lparr>keys := string # keys s2\<rparr>)
             else (id, statusbar))"

text \<open>\<^verbatim>\<open>gtk_statusbar_msg_create\<close>: \<^verbatim>\<open>g_strdup\<close> copies the text.\<close>

definition gtk_statusbar_msg_create ::
  "GtkStatusbar \<Rightarrow> guint \<Rightarrow> string option \<Rightarrow> GtkStatusbarMsg \<times> GtkStatusbar" where
  "gtk_statusbar_msg_create statusbar ctx txt =
     (\<lparr>msg_text = txt, context_id = ctx, message_id = seq_message_id statusbar\<rparr>,
      statusbar\<lparr>seq_message_id := seq_message_id statusbar + 1\<rparr>)"

text \<open>
  \<^verbatim>\<open>gtk_statusbar_push\<close>: returns the message id and the new state; a \<^verbatim>\<open>NULL\<close>
  text fails the \<^verbatim>\<open>g_return_val_if_fail\<close> check and returns 0.
\<close>

definition gtk_statusbar_push ::
  "GtkStatusbar \<Rightarrow> guint \<Rightarrow> string option \<Rightarrow> guint \<times> GtkStatusbar" where
  "gtk_statusbar_push statusbar ctx txt =
     (case txt of
        None \<Rightarrow> (0, statusbar)
      | Some t \<Rightarrow>
          let (msg, s1) = gtk_statusbar_msg_create statusbar ctx (Some t);
              s2 = s1\<lparr>messages := msg # messages s1\<rparr>;
              s3 = g_signal_emit s2 SIGNAL_TEXT_PUSHED (context_id msg) (msg_text msg)
          in (message_id msg, s3))"

text \<open>
  \<^verbatim>\<open>g_slist_remove_link (list, link)\<close> unlinks one node; the node is given here by
  its position in the list.
\<close>

fun g_slist_remove_link :: "'a list \<Rightarrow> nat \<Rightarrow> 'a list" where
  "g_slist_remove_link [] n = []"
| "g_slist_remove_link (x # xs) 0 = xs"
| "g_slist_remove_link (x # xs) (Suc n) = x # g_slist_remove_link xs n"

text \<open>
  The \<^verbatim>\<open>for\<close> loop of \<^verbatim>\<open>gtk_statusbar_pop\<close>: \<open>whole\<close> is \<^verbatim>\<open>priv->messages\<close>,
  \<open>list\<close> the nodes from the cursor on, \<open>i\<close> the position of the cursor. The result is
  the new \<^verbatim>\<open>priv->messages\<close>.
\<close>

fun pop_loop :: "guint \<Rightarrow> GtkStatusbarMsg list \<Rightarrow> GtkStatusbarMsg list \<Rightarrow> nat \<Rightarrow> GtkStatusbarMsg list" where
  "pop_loop ctx whole [] i = whole"
| "pop_loop ctx whole (msg # next) i =
     (if context_id msg = ctx then g_slist_remove_link whole i
      else pop_loop ctx whole next (Suc i))"

definition gtk_statusbar_pop :: "GtkStatusbar \<Rightarrow> guint \<Rightarrow> GtkStatusbar" where
  "gtk_statusbar_pop statusbar ctx =
     (let s1 = (if messages statusbar \<noteq> []
                then statusbar\<lparr>messages := pop_loop ctx (messages statusbar) (messages statusbar) 0\<rparr>
                else statusbar)
      in case messages s1 of
           [] \<Rightarrow> g_signal_emit s1 SIGNAL_TEXT_POPPED 0 None
         | msg # _ \<Rightarrow> g_signal_emit s1 SIGNAL_TEXT_POPPED (context_id msg) (msg_text msg))"

text \<open>The \<^verbatim>\<open>for\<close> loop of \<^verbatim>\<open>gtk_statusbar_remove\<close>, as \<open>pop_loop\<close>.\<close>

fun remove_loop ::
  "guint \<Rightarrow> guint \<Rightarrow> GtkStatusbarMsg list \<Rightarrow> GtkStatusbarMsg list \<Rightarrow> nat \<Rightarrow> GtkStatusbarMsg list" where
  "remove_loop ctx mid whole [] i = whole"
| "remove_loop ctx mid whole (msg # next) i =
     (if context_id msg = ctx \<and> message_id msg = mid then g_slist_remove_link whole i
      else remove_loop ctx mid whole next (Suc i))"

text \<open>
  \<^verbatim>\<open>gtk_statusbar_remove\<close>: \<^verbatim>\<open>g_return_if_fail (message_id > 0)\<close> returns at once
  for the id 0; a match at the top goes through \<^verbatim>\<open>gtk_statusbar_pop\<close>.
\<close>

definition gtk_statusbar_remove :: "GtkStatusbar \<Rightarrow> guint \<Rightarrow> guint \<Rightarrow> GtkStatusbar" where
  "gtk_statusbar_remove statusbar ctx mid =
     (if \<not> mid > 0 then statusbar
      else case messages statusbar of
             [] \<Rightarrow> statusbar
           | msg # _ \<Rightarrow>
               if context_id msg = ctx \<and> message_id msg = mid
               then gtk_statusbar_pop statusbar ctx
               else statusbar\<lparr>messages :=
                      remove_loop ctx mid (messages statusbar) (messages statusbar) 0\<rparr>)"

text \<open>
  The \<^verbatim>\<open>while\<close> loop of \<^verbatim>\<open>gtk_statusbar_remove_all\<close>: \<open>list\<close> is the chain after
  \<^verbatim>\<open>prev\<close>; a node with the context id is unlinked (\<^verbatim>\<open>prev->next = list->next\<close>),
  any other node becomes the new \<^verbatim>\<open>prev\<close>. The result is the chain after the
  first \<^verbatim>\<open>prev\<close> when the loop ends.
\<close>

fun remove_all_loop :: "guint \<Rightarrow> GtkStatusbarMsg list \<Rightarrow> GtkStatusbarMsg list" where
  "remove_all_loop ctx [] = []"
| "remove_all_loop ctx (msg # next) =
     (if context_id msg = ctx then remove_all_loop ctx next
      else msg # remove_all_loop ctx next)"

definition gtk_statusbar_remove_all :: "GtkStatusbar \<Rightarrow> guint \<Rightarrow> GtkStatusbar" where
  "gtk_statusbar_remove_all statusbar ctx =
     (case messages statusbar of
        [] \<Rightarrow> statusbar
      | topmost # rest \<Rightarrow>
          let s1 = statusbar\<lparr>messages := topmost # remove_all_loop ctx rest\<rparr>
          in if context_id topmost = ctx then gtk_statusbar_pop s1 ctx else s1)"

text \<open>A client's calls, and the state after a sequence of them.\<close>

datatype call =
    Get_context_id "string option"
  | Push guint "string option"
  | Pop guint
  | Remove guint guint
  | Remove_all guint

fun exec :: "call \<Rightarrow> GtkStatusbar \<Rightarrow> GtkStatusbar" where
  "exec (Get_context_id d) s = snd (gtk_statusbar_get_context_id s d)"
| "exec (Push ctx txt) s = snd (gtk_statusbar_push s ctx txt)"
| "exec (Pop ctx) s = gtk_statusbar_pop s ctx"
| "exec (Remove ctx mid) s = gtk_statusbar_remove s ctx mid"
| "exec (Remove_all ctx) s = gtk_statusbar_remove_all s ctx"

definition run :: "call list \<Rightarrow> GtkStatusbar \<Rightarrow> GtkStatusbar" where
  "run cs s = fold exec cs s"

text \<open>The text the label has to show for a stack: that of the topmost message.\<close>

definition top_text :: "GtkStatusbarMsg list \<Rightarrow> string" where
  "top_text ms = (case ms of [] \<Rightarrow> [] | m # _ \<Rightarrow> (case msg_text m of None \<Rightarrow> [] | Some t \<Rightarrow> t))"


subsection \<open>Notions used to state the properties of the statusbar\<close>

text \<open>The label shows the text of the topmost message.\<close>

definition label_shows_top :: "GtkStatusbar \<Rightarrow> bool" where
  "label_shows_top s = (label s = top_text (messages s))"


text \<open>
  A call that pushes a message (a push with a \<^verbatim>\<open>NULL\<close> text returns at once), and the
  number of such calls in a sequence.
\<close>

fun is_push :: "call \<Rightarrow> bool" where
  "is_push (Push ctx (Some t)) = True"
| "is_push _ = False"

definition npush :: "call list \<Rightarrow> nat" where
  "npush cs = length (filter is_push cs)"

text \<open>\<open>n\<close> times: push a message, then pop it.\<close>

primrec push_pop_times :: "nat \<Rightarrow> call list" where
  "push_pop_times 0 = []"
| "push_pop_times (Suc n) = Push 1 (Some ''m'') # Pop 1 # push_pop_times n"

text \<open>The ids on a stack are pairwise distinct and lie in \<open>1..n\<close>.\<close>

definition ids_ok :: "nat \<Rightarrow> GtkStatusbarMsg list \<Rightarrow> bool" where
  "ids_ok n ms = (distinct (map message_id ms) \<and>
     (\<forall>m\<in>set ms. 0 < unat (message_id m) \<and> unat (message_id m) \<le> n))"


text \<open>A statusbar with three messages, two of context 1 around one of context 2.\<close>

definition three_messages :: GtkStatusbar where
  "three_messages =
     \<lparr>label = ''third'',
      messages = [\<lparr>msg_text = Some ''third'', context_id = 1, message_id = 3\<rparr>,
                  \<lparr>msg_text = Some ''second'', context_id = 2, message_id = 2\<rparr>,
                  \<lparr>msg_text = Some ''first'', context_id = 1, message_id = 1\<rparr>],
      keys = [], seq_context_id = 3, seq_message_id = 4, object_data = Map.empty, emitted = []\<rparr>"

text \<open>
  The descriptions that a sequence of calls passes to \<^verbatim>\<open>gtk_statusbar_get_context_id\<close>,
  and the key under which the id of a description is stored.
\<close>

fun call_desc :: "call \<Rightarrow> string list" where
  "call_desc (Get_context_id (Some d)) = [d]"
| "call_desc _ = []"

definition descs :: "call list \<Rightarrow> string set" where
  "descs cs = set (concat (map call_desc cs))"

definition context_key :: "string \<Rightarrow> string" where
  "context_key d = ''gtk-status-bar-context:'' @ d"

text \<open>
  Pairwise different descriptions, one for every number (its binary digits, lowest
  first), and the calls that ask for the ids of the first \<open>n\<close> of them.
\<close>

fun desc_no :: "nat \<Rightarrow> string" where
  "desc_no n = (if n = 0 then [] else (if even n then CHR ''0'' else CHR ''1'') # desc_no (n div 2))"

declare desc_no.simps [simp del]

definition register_first :: "nat \<Rightarrow> call list" where
  "register_first n = map (\<lambda>k. Get_context_id (Some (desc_no k))) [0..<n]"

text \<open>The ids stored are pairwise distinct and lie in \<open>1..n\<close>.\<close>

definition context_ids_ok :: "nat \<Rightarrow> (string \<rightharpoonup> guint) \<Rightarrow> bool" where
  "context_ids_ok n data =
     ((\<forall>k k' v. data k = Some v \<and> data k' = Some v \<longrightarrow> k = k') \<and>
      (\<forall>k v. data k = Some v \<longrightarrow> 0 < unat v \<and> unat v \<le> n))"


section \<open>GtkColorScale: painting the trough (gtk/gtkcolorscale.c)\<close>

subsection \<open>The C \<^verbatim>\<open>int\<close>\<close>

text \<open>
  An \<^verbatim>\<open>int\<close> has 32 bits. A sum or product of \<^verbatim>\<open>int\<close>s that leaves its range is
  undefined in C; here it ends the function with the fault \<open>INT_OVERFLOW\<close>.
  The division of doubles does not trap in C; a zero divisor is marked with a fault
  all the same, so that its absence can be stated.
\<close>

datatype fault = DIVISION_BY_ZERO | INT_OVERFLOW

definition INT_MIN :: int where
  "INT_MIN = - 2147483648"

definition INT_MAX :: int where
  "INT_MAX = 2147483647"

definition int_add :: "int \<Rightarrow> int \<Rightarrow> fault + int" where
  "int_add a b = (if INT_MIN \<le> a + b \<and> a + b \<le> INT_MAX then Inr (a + b) else Inl INT_OVERFLOW)"

definition int_mul :: "int \<Rightarrow> int \<Rightarrow> fault + int" where
  "int_mul a b = (if INT_MIN \<le> a * b \<and> a * b \<le> INT_MAX then Inr (a * b) else Inl INT_OVERFLOW)"

subsection \<open>Doubles and floats\<close>

text \<open>
  The type \<open>'d\<close> stands for \<^verbatim>\<open>gdouble\<close>; the value of a \<^verbatim>\<open>float\<close> is a \<open>'d\<close> as
  well. The arithmetic is not fixed here: the operations the code uses are the
  fields of \<open>gdouble_ops\<close>, and \<^verbatim>\<open>gtk_hsv_to_rgb\<close> (gtk/gtkcolorutils.c, not among
  the sources) is a field too. \<open>d_of_int\<close> is the conversion of an \<^verbatim>\<open>int\<close> to a
  double (the literals \<^verbatim>\<open>0.0\<close> and \<^verbatim>\<open>1.0\<close> are \<open>d_of_int 0\<close> and \<open>d_of_int 1\<close>),
  \<open>f_of_int\<close> the conversion of an \<^verbatim>\<open>int\<close> to a \<^verbatim>\<open>float\<close> (the fields of
  \<^verbatim>\<open>graphene_point_t\<close> and \<^verbatim>\<open>graphene_rect_t\<close>), \<open>d_dec m e\<close> the decimal literal
  \<open>m / 10^e\<close>, and \<open>d_to_guchar\<close> the conversion of an assignment to a \<^verbatim>\<open>guchar\<close>.
\<close>

record 'd gdouble_ops =
  d_of_int :: "int \<Rightarrow> 'd"
  f_of_int :: "int \<Rightarrow> 'd"
  d_dec :: "int \<Rightarrow> nat \<Rightarrow> 'd"
  d_mul :: "'d \<Rightarrow> 'd \<Rightarrow> 'd"
  d_div :: "'d \<Rightarrow> 'd \<Rightarrow> 'd"
  d_less :: "'d \<Rightarrow> 'd \<Rightarrow> bool"
  d_to_guchar :: "'d \<Rightarrow> 8 word"
  gtk_hsv_to_rgb :: "'d \<Rightarrow> 'd \<Rightarrow> 'd \<Rightarrow> 'd \<times> 'd \<times> 'd"

text \<open>
  GLib's macro
  \<^verbatim>\<open>CLAMP(x, low, high) (((x) > (high)) ? (high) : (((x) < (low)) ? (low) : (x)))\<close>.
\<close>

definition CLAMP :: "'d gdouble_ops \<Rightarrow> 'd \<Rightarrow> 'd \<Rightarrow> 'd \<Rightarrow> 'd" where
  "CLAMP ops x low high =
     (if d_less ops high x then high else if d_less ops x low then low else x)"

text \<open>
  The arithmetic of IEEE 754 on the rational numbers: a result is rounded to the
  nearest number with \<open>p\<close> significant bits, a tie to the one with an even last bit
  (\<open>p = 53\<close> for a double, \<open>p = 24\<close> for a float). The range of the exponent is not
  modelled: no infinities, no subnormal numbers, no NaN.
\<close>

definition round_half_even :: "rat \<Rightarrow> int" where
  "round_half_even q =
     (let n = \<lfloor>q\<rfloor>; r = q - of_int n
      in if r < 1 / 2 then n else if 1 / 2 < r then n + 1 else if even n then n else n + 1)"

definition pow2 :: "int \<Rightarrow> rat" where
  "pow2 k = (if 0 \<le> k then 2 ^ nat k else 1 / 2 ^ nat (- k))"

text \<open>The exponent \<open>e\<close> of a positive number \<open>q\<close>: \<open>2^e \<le> q < 2^(e + 1)\<close>.\<close>

definition binary_exponent :: "rat \<Rightarrow> int" where
  "binary_exponent q =
     (case quotient_of q of
        (n, d) \<Rightarrow> let k = bitlen n - bitlen d in if pow2 k \<le> q then k else k - 1)"

definition round_binary :: "nat \<Rightarrow> rat \<Rightarrow> rat" where
  "round_binary p q =
     (if q = 0 then 0
      else let u = pow2 (binary_exponent \<bar>q\<bar> - int p + 1)
           in sgn q * of_int (round_half_even (\<bar>q\<bar> / u)) * u)"

text \<open>
  The operations of the C code on these numbers; the conversion to \<^verbatim>\<open>guchar\<close>
  drops the fraction. \<^verbatim>\<open>gtk_hsv_to_rgb\<close> stays a parameter.
\<close>

definition binary64_ops :: "(rat \<Rightarrow> rat \<Rightarrow> rat \<Rightarrow> rat \<times> rat \<times> rat) \<Rightarrow> rat gdouble_ops" where
  "binary64_ops hsv =
     \<lparr>d_of_int = (\<lambda>n. round_binary 53 (of_int n)),
      f_of_int = (\<lambda>n. round_binary 24 (of_int n)),
      d_dec = (\<lambda>m e. round_binary 53 (of_int m / 10 ^ e)),
      d_mul = (\<lambda>a b. round_binary 53 (a * b)),
      d_div = (\<lambda>a b. round_binary 53 (a / b)),
      d_less = (<),
      d_to_guchar = (\<lambda>a. word_of_int (if 0 \<le> a then \<lfloor>a\<rfloor> else \<lceil>a\<rceil>)),
      gtk_hsv_to_rgb = hsv\<rparr>"

text \<open>A function in the place of \<^verbatim>\<open>gtk_hsv_to_rgb\<close> for examples: grey levels.\<close>

definition grey_levels :: "rat \<Rightarrow> rat \<Rightarrow> rat \<Rightarrow> rat \<times> rat \<times> rat" where
  "grey_levels h s v = (v, v, v)"

subsection \<open>The widget and the snapshot\<close>

record 'd GdkRGBA =
  red :: 'd
  green :: 'd
  blue :: 'd
  alpha :: 'd

datatype GtkColorScaleType = GTK_COLOR_SCALE_HUE | GTK_COLOR_SCALE_ALPHA

datatype GtkOrientation = GTK_ORIENTATION_HORIZONTAL | GTK_ORIENTATION_VERTICAL

text \<open>What \<^verbatim>\<open>gtk_widget_get_direction\<close> returns.\<close>

datatype GtkTextDirection = GTK_TEXT_DIR_LTR | GTK_TEXT_DIR_RTL

text \<open>
  \<^verbatim>\<open>struct _GtkColorScalePrivate\<close>, with the orientation and the text direction of
  the widget, which \<^verbatim>\<open>gtk_color_scale_snapshot_trough\<close> reads.
\<close>

record 'd GtkColorScale =
  color :: "'d GdkRGBA"
  scale_type :: GtkColorScaleType
  orientation :: GtkOrientation
  direction :: GtkTextDirection

text \<open>
  \<^verbatim>\<open>graphene_rect_t\<close> (x, y, width, height) and \<^verbatim>\<open>graphene_point_t\<close> (x, y): their
  fields are \<^verbatim>\<open>float\<close>s. \<^verbatim>\<open>GRAPHENE_RECT_INIT\<close> and \<^verbatim>\<open>graphene_point_init\<close> convert
  the \<^verbatim>\<open>int\<close>s they are given.
\<close>

type_synonym 'd graphene_rect = "'d \<times> 'd \<times> 'd \<times> 'd"
type_synonym 'd graphene_point = "'d \<times> 'd"

definition GRAPHENE_RECT_INIT :: "'d gdouble_ops \<Rightarrow> int \<Rightarrow> int \<Rightarrow> int \<Rightarrow> int \<Rightarrow> 'd graphene_rect" where
  "GRAPHENE_RECT_INIT ops x y width height =
     (f_of_int ops x, f_of_int ops y, f_of_int ops width, f_of_int ops height)"

definition graphene_point_init :: "'d gdouble_ops \<Rightarrow> int \<Rightarrow> int \<Rightarrow> 'd graphene_point" where
  "graphene_point_init ops x y = (f_of_int ops x, f_of_int ops y)"

datatype GdkMemoryFormat = GDK_MEMORY_R8G8B8

text \<open>\<^verbatim>\<open>gdk_memory_texture_new (width, height, format, bytes, stride)\<close>\<close>

record GdkTexture =
  tex_width :: int
  tex_height :: int
  tex_format :: GdkMemoryFormat
  tex_bytes :: "8 word list"
  tex_stride :: int

text \<open>
  The calls on the cairo context of a cairo node, in their order; the \<^verbatim>\<open>int\<close>s
  given to \<^verbatim>\<open>cairo_translate\<close> and \<^verbatim>\<open>cairo_scale\<close> become doubles of the same value.
\<close>

datatype 'd cairo_op =
    Cairo_translate int int
  | Cairo_scale int int
  | Cairo_set_source_rgb 'd 'd 'd
  | Cairo_paint
  | Cairo_mask_checkered 'd 'd

text \<open>
  A snapshot is the list of the render nodes appended to it, oldest first. A
  \<^verbatim>\<open>GskColorStop\<close> is an offset with a colour.
\<close>

datatype 'd render_node =
    Texture_node GdkTexture "'d graphene_rect"
  | Cairo_node "'d graphene_rect" "'d cairo_op list"
  | Linear_gradient_node "'d graphene_rect" "'d graphene_point" "'d graphene_point"
      "('d \<times> 'd GdkRGBA) list"

type_synonym 'd GtkSnapshot = "'d render_node list"

subsection \<open>The hue branch\<close>

text \<open>
  The body of the inner loop: the three bytes of one pixel of a row with hue \<open>h\<close>.
\<close>

definition hue_pixel :: "'d gdouble_ops \<Rightarrow> 'd \<Rightarrow> 8 word list" where
  "hue_pixel ops h =
     (case gtk_hsv_to_rgb ops h (d_of_int ops 1) (d_of_int ops 1) of
        (r, g, b) \<Rightarrow>
          [d_to_guchar ops (CLAMP ops (d_mul ops r (d_of_int ops 255)) (d_of_int ops 0) (d_of_int ops 255)),
           d_to_guchar ops (CLAMP ops (d_mul ops g (d_of_int ops 255)) (d_of_int ops 0) (d_of_int ops 255)),
           d_to_guchar ops (CLAMP ops (d_mul ops b (d_of_int ops 255)) (d_of_int ops 0) (d_of_int ops 255))])"

text \<open>
  The inner loop, \<^verbatim>\<open>for (hue_x = 0; hue_x < stride; hue_x += 3)\<close> with
  \<^verbatim>\<open>stride = width * 3\<close>: one pixel for each of the \<open>width\<close> columns.
\<close>

definition hue_row :: "'d gdouble_ops \<Rightarrow> 'd \<Rightarrow> int \<Rightarrow> 8 word list" where
  "hue_row ops h width = concat (replicate (nat width) (hue_pixel ops h))"

text \<open>The hue of row \<open>hue_y\<close>: \<^verbatim>\<open>h = CLAMP (hue_y * f, 0.0, 1.0)\<close>.\<close>

definition row_hue :: "'d gdouble_ops \<Rightarrow> 'd \<Rightarrow> int \<Rightarrow> 'd" where
  "row_hue ops f hue_y =
     CLAMP ops (d_mul ops (d_of_int ops hue_y) f) (d_of_int ops 0) (d_of_int ops 1)"

text \<open>The outer loop, \<^verbatim>\<open>for (hue_y = 0; hue_y < height; hue_y++)\<close>.\<close>

definition hue_data :: "'d gdouble_ops \<Rightarrow> 'd \<Rightarrow> int \<Rightarrow> int \<Rightarrow> 8 word list" where
  "hue_data ops f width height =
     concat (map (\<lambda>hue_y. hue_row ops (row_hue ops f (int hue_y)) width) [0..<nat height])"

text \<open>\<^verbatim>\<open>f = 1.0 / (height - 1)\<close>\<close>

definition hue_divisor :: "int \<Rightarrow> int" where
  "hue_divisor height = height - 1"

definition hue_step :: "'d gdouble_ops \<Rightarrow> int \<Rightarrow> fault + 'd" where
  "hue_step ops height =
     (if hue_divisor height = 0 then Inl DIVISION_BY_ZERO
      else Inr (d_div ops (d_of_int ops 1) (d_of_int ops (hue_divisor height))))"

text \<open>
  The hue branch: \<^verbatim>\<open>stride = width * 3\<close>, \<^verbatim>\<open>g_malloc (width * height * 3)\<close>, the
  loops, and the texture over the rectangle. Inside the loops \<^verbatim>\<open>hue_y * stride\<close>
  and \<^verbatim>\<open>hue_x + 2\<close> stay below \<^verbatim>\<open>width * height * 3\<close>.
\<close>

definition hue_branch ::
  "'d gdouble_ops \<Rightarrow> 'd GtkSnapshot \<Rightarrow> int \<Rightarrow> int \<Rightarrow> int \<Rightarrow> int \<Rightarrow> fault + 'd GtkSnapshot" where
  "hue_branch ops snapshot x y width height =
     (case int_mul width 3 of
        Inl e \<Rightarrow> Inl e
      | Inr stride \<Rightarrow>
          (case int_mul width height of
             Inl e \<Rightarrow> Inl e
           | Inr wh \<Rightarrow>
               (case int_mul wh 3 of
                  Inl e \<Rightarrow> Inl e
                | Inr n_bytes \<Rightarrow>
                    (case hue_step ops height of
                       Inl e \<Rightarrow> Inl e
                     | Inr f \<Rightarrow>
                         Inr (snapshot @
                           [Texture_node
                              \<lparr>tex_width = width, tex_height = height, tex_format = GDK_MEMORY_R8G8B8,
                               tex_bytes = hue_data ops f width height, tex_stride = stride\<rparr>
                              (GRAPHENE_RECT_INIT ops x y width height)])))))"

subsection \<open>The alpha branch\<close>

text \<open>
  The cairo calls, which paint the checkered background; \<open>rtl\<close> says that the scale
  is horizontal in a right-to-left widget.
\<close>

definition alpha_background :: "'d gdouble_ops \<Rightarrow> bool \<Rightarrow> int \<Rightarrow> int \<Rightarrow> int \<Rightarrow> 'd cairo_op list" where
  "alpha_background ops rtl x y width =
     [Cairo_translate x y] @
     (if rtl then [Cairo_translate width 0, Cairo_scale (- 1) 1] else []) @
     [Cairo_set_source_rgb (d_dec ops 33 2) (d_dec ops 33 2) (d_dec ops 33 2),
      Cairo_paint,
      Cairo_set_source_rgb (d_dec ops 66 2) (d_dec ops 66 2) (d_dec ops 66 2),
      Cairo_mask_checkered (d_dec ops 125 3) (d_dec ops 125 3)]"

text \<open>
  The alpha branch: \<^verbatim>\<open>x + width\<close> is a sum of \<^verbatim>\<open>int\<close>s, and
  \<^verbatim>\<open>graphene_point_init\<close> converts it to a \<^verbatim>\<open>float\<close>.
\<close>

definition alpha_branch ::
  "'d gdouble_ops \<Rightarrow> 'd GtkColorScale \<Rightarrow> 'd GtkSnapshot \<Rightarrow> int \<Rightarrow> int \<Rightarrow> int \<Rightarrow> int \<Rightarrow>
     fault + 'd GtkSnapshot" where
  "alpha_branch ops scale snapshot x y width height =
     (case int_add x width of
        Inl e \<Rightarrow> Inl e
      | Inr x_end \<Rightarrow>
          let rtl = (orientation scale = GTK_ORIENTATION_HORIZONTAL \<and>
                     direction scale = GTK_TEXT_DIR_RTL);
              start = (if rtl then graphene_point_init ops x_end y else graphene_point_init ops x y);
              end = (if rtl then graphene_point_init ops x y else graphene_point_init ops x_end y);
              c = color scale
          in Inr (snapshot @
               [Cairo_node (GRAPHENE_RECT_INIT ops x y width height) (alpha_background ops rtl x y width),
                Linear_gradient_node (GRAPHENE_RECT_INIT ops x y width height) start end
                  [(d_of_int ops 0, \<lparr>red = red c, green = green c, blue = blue c, alpha = d_of_int ops 0\<rparr>),
                   (d_of_int ops 1, \<lparr>red = red c, green = green c, blue = blue c, alpha = d_of_int ops 1\<rparr>)]]))"

subsection \<open>The function\<close>

text \<open>\<^verbatim>\<open>gtk_color_scale_snapshot_trough\<close>: the snapshot after the call, or a fault.\<close>

definition gtk_color_scale_snapshot_trough ::
  "'d gdouble_ops \<Rightarrow> 'd GtkColorScale \<Rightarrow> 'd GtkSnapshot \<Rightarrow> int \<Rightarrow> int \<Rightarrow> int \<Rightarrow> int \<Rightarrow>
     fault + 'd GtkSnapshot" where
  "gtk_color_scale_snapshot_trough ops scale snapshot x y width height =
     (if width \<le> 1 \<or> height \<le> 1 then Inr snapshot
      else case scale_type scale of
        GTK_COLOR_SCALE_HUE \<Rightarrow> hue_branch ops snapshot x y width height
      | GTK_COLOR_SCALE_ALPHA \<Rightarrow> alpha_branch ops scale snapshot x y width height)"

text \<open>\<^verbatim>\<open>gtk_color_scale_set_rgba\<close>\<close>

definition gtk_color_scale_set_rgba :: "'d GtkColorScale \<Rightarrow> 'd GdkRGBA \<Rightarrow> 'd GtkColorScale" where
  "gtk_color_scale_set_rgba scale c = scale\<lparr>color := c\<rparr>"

section \<open>Properties of the statusbar\<close>

subsection \<open>The loops and the signals\<close>

lemma remove_link_at:
  "g_slist_remove_link (pre @ x # post) (length pre) = pre @ post"
  by (induction pre) simp_all

lemma pop_loop_skip:
  "\<forall>x\<in>set xs. context_id x \<noteq> c \<Longrightarrow> pop_loop c whole (xs @ ys) i = pop_loop c whole ys (i + length xs)"
  by (induction xs arbitrary: i) simp_all

lemma pop_loop_none:
  "\<forall>x\<in>set xs. context_id x \<noteq> c \<Longrightarrow> pop_loop c whole xs i = whole"
  by (induction xs arbitrary: i) simp_all

lemma pop_loop_first:
  assumes "\<forall>x\<in>set pre. context_id x \<noteq> c" and "context_id m = c"
  shows "pop_loop c (pre @ m # post) (pre @ m # post) 0 = pre @ post"
  using assms pop_loop_skip [of pre c "pre @ m # post" "m # post" 0]
  by (simp add: remove_link_at)

lemma remove_loop_skip:
  "\<forall>x\<in>set xs. \<not> (context_id x = c \<and> message_id x = mid) \<Longrightarrow>
     remove_loop c mid whole (xs @ ys) i = remove_loop c mid whole ys (i + length xs)"
  by (induction xs arbitrary: i) auto

lemma remove_loop_none:
  "\<forall>x\<in>set xs. \<not> (context_id x = c \<and> message_id x = mid) \<Longrightarrow> remove_loop c mid whole xs i = whole"
  by (induction xs arbitrary: i) auto

lemma remove_loop_first:
  assumes "\<forall>x\<in>set pre. \<not> (context_id x = c \<and> message_id x = mid)"
    and "context_id m = c" and "message_id m = mid"
  shows "remove_loop c mid (pre @ m # post) (pre @ m # post) 0 = pre @ post"
  using assms remove_loop_skip [of pre c mid "pre @ m # post" "m # post" 0]
  by (simp add: remove_link_at)

lemma remove_all_loop_filter:
  "remove_all_loop c ms = filter (\<lambda>m. context_id m \<noteq> c) ms"
  by (induction ms) simp_all

lemma messages_emit [simp]: "messages (g_signal_emit s sig c t) = messages s"
  by (simp add: g_signal_emit_def gtk_statusbar_update_def)

lemma label_emit [simp]: "label (g_signal_emit s sig c t) = (case t of None \<Rightarrow> [] | Some x \<Rightarrow> x)"
  by (simp add: g_signal_emit_def gtk_statusbar_update_def)

lemma emitted_emit [simp]: "emitted (g_signal_emit s sig c t) = emitted s @ [(sig, c, t)]"
  by (simp add: g_signal_emit_def gtk_statusbar_update_def)

lemma messages_pop:
  "messages (gtk_statusbar_pop s c) = pop_loop c (messages s) (messages s) 0"
  by (cases "messages s") (simp_all add: gtk_statusbar_pop_def Let_def split: list.splits)

lemma label_pop: "label (gtk_statusbar_pop s c) = top_text (messages (gtk_statusbar_pop s c))"
  by (simp add: gtk_statusbar_pop_def Let_def top_text_def split: list.splits)

lemma emitted_pop:
  "emitted (gtk_statusbar_pop s c) =
     emitted s @ [(SIGNAL_TEXT_POPPED,
       (case messages (gtk_statusbar_pop s c) of [] \<Rightarrow> (0, None) | m # _ \<Rightarrow> (context_id m, msg_text m)))]"
  by (simp add: gtk_statusbar_pop_def Let_def split: list.splits)

subsection \<open>Pop\<close>

text \<open>
  Claim C2. From any state, \<^verbatim>\<open>gtk_statusbar_pop\<close> leaves the stack as it is when no
  message has the context id; otherwise it takes out the first message from the top
  that has it and keeps all others in their order. In both cases it emits
  \<^verbatim>\<open>text-popped\<close> with the context id and text of the new topmost message, or with
  0 and \<^verbatim>\<open>NULL\<close> when the stack is empty, and the label shows that text.
\<close>

theorem gtk_statusbar_pop_first_match:
  "((\<forall>m\<in>set (messages s). context_id m \<noteq> c) \<longrightarrow>
      messages (gtk_statusbar_pop s c) = messages s) \<and>
   (\<forall>pre m post. messages s = pre @ m # post \<and> context_id m = c \<and>
        (\<forall>x\<in>set pre. context_id x \<noteq> c) \<longrightarrow>
      messages (gtk_statusbar_pop s c) = pre @ post) \<and>
   emitted (gtk_statusbar_pop s c) =
     emitted s @ [(SIGNAL_TEXT_POPPED,
       (case messages (gtk_statusbar_pop s c) of [] \<Rightarrow> (0, None)
        | m # _ \<Rightarrow> (context_id m, msg_text m)))] \<and>
   label (gtk_statusbar_pop s c) = top_text (messages (gtk_statusbar_pop s c))"
proof (intro conjI impI allI)
  assume "\<forall>m\<in>set (messages s). context_id m \<noteq> c"
  then show "messages (gtk_statusbar_pop s c) = messages s"
    by (simp add: messages_pop pop_loop_none)
next
  fix pre m post
  assume "messages s = pre @ m # post \<and> context_id m = c \<and> (\<forall>x\<in>set pre. context_id x \<noteq> c)"
  then show "messages (gtk_statusbar_pop s c) = pre @ post"
    by (simp add: messages_pop pop_loop_first)
next
  show "emitted (gtk_statusbar_pop s c) =
     emitted s @ [(SIGNAL_TEXT_POPPED,
       (case messages (gtk_statusbar_pop s c) of [] \<Rightarrow> (0, None)
        | m # _ \<Rightarrow> (context_id m, msg_text m)))]"
    by (rule emitted_pop)
next
  show "label (gtk_statusbar_pop s c) = top_text (messages (gtk_statusbar_pop s c))"
    by (rule label_pop)
qed

theorem gtk_statusbar_pop_first_match_witness:
  "messages (gtk_statusbar_pop three_messages 2) =
     [\<lparr>msg_text = Some ''third'', context_id = 1, message_id = 3\<rparr>,
      \<lparr>msg_text = Some ''first'', context_id = 1, message_id = 1\<rparr>] \<and>
   emitted (gtk_statusbar_pop three_messages 2) = [(SIGNAL_TEXT_POPPED, 1, Some ''third'')] \<and>
   messages (gtk_statusbar_pop three_messages 7) = messages three_messages"
proof -
  have "messages (gtk_statusbar_pop three_messages 2) =
     [\<lparr>msg_text = Some ''third'', context_id = 1, message_id = 3\<rparr>] @
     [\<lparr>msg_text = Some ''first'', context_id = 1, message_id = 1\<rparr>]"
    using gtk_statusbar_pop_first_match [of three_messages 2, THEN conjunct2, THEN conjunct1,
        rule_format, of "[\<lparr>msg_text = Some ''third'', context_id = 1, message_id = 3\<rparr>]"
        "\<lparr>msg_text = Some ''second'', context_id = 2, message_id = 2\<rparr>"
        "[\<lparr>msg_text = Some ''first'', context_id = 1, message_id = 1\<rparr>]"]
    by (simp add: three_messages_def)
  moreover have "messages (gtk_statusbar_pop three_messages 7) = messages three_messages"
    using gtk_statusbar_pop_first_match [of three_messages 7]
    by (simp add: three_messages_def)
  moreover have "emitted (gtk_statusbar_pop three_messages 2) = [(SIGNAL_TEXT_POPPED, 1, Some ''third'')]"
    using gtk_statusbar_pop_first_match [of three_messages 2] calculation(1)
    by (simp add: three_messages_def)
  ultimately show ?thesis by simp
qed

subsection \<open>Push, and pop after push\<close>

lemma push_Some:
  "gtk_statusbar_push s c (Some t) =
     (seq_message_id s,
      g_signal_emit (s\<lparr>seq_message_id := seq_message_id s + 1,
          messages := \<lparr>msg_text = Some t, context_id = c, message_id = seq_message_id s\<rparr> # messages s\<rparr>)
        SIGNAL_TEXT_PUSHED c (Some t))"
  by (simp add: gtk_statusbar_push_def gtk_statusbar_msg_create_def)

text \<open>
  Claim C5. From any state, a push with context id \<open>c\<close> and a text, followed at once by
  a pop with \<open>c\<close>, leaves the stored messages as they were before the push.
\<close>

theorem gtk_statusbar_pop_after_push:
  "messages (gtk_statusbar_pop (snd (gtk_statusbar_push s c (Some t))) c) = messages s"
  by (simp add: push_Some messages_pop)

subsection \<open>Remove all\<close>

text \<open>
  Claim C4. From any state, \<^verbatim>\<open>gtk_statusbar_remove_all\<close> leaves exactly the messages
  whose context id differs from the argument, in their order, and emits
  \<^verbatim>\<open>text-popped\<close> (with the new topmost message, or 0 and \<^verbatim>\<open>NULL\<close> for an empty
  stack) exactly when the stack was not empty and its topmost message had the
  context id.
\<close>

theorem gtk_statusbar_remove_all_exact:
  "messages (gtk_statusbar_remove_all s c) = filter (\<lambda>m. context_id m \<noteq> c) (messages s) \<and>
   emitted (gtk_statusbar_remove_all s c) =
     (case messages s of
        [] \<Rightarrow> emitted s
      | m0 # _ \<Rightarrow>
          if context_id m0 = c
          then emitted s @ [(SIGNAL_TEXT_POPPED,
                 (case messages (gtk_statusbar_remove_all s c) of [] \<Rightarrow> (0, None)
                  | m # _ \<Rightarrow> (context_id m, msg_text m)))]
          else emitted s)"
  by (cases "messages s")
     (simp_all add: gtk_statusbar_remove_all_def Let_def messages_pop emitted_pop remove_all_loop_filter)

subsection \<open>Remove\<close>

lemma messages_remove:
  "0 < mid \<Longrightarrow> messages (gtk_statusbar_remove s c mid) = remove_loop c mid (messages s) (messages s) 0"
  by (cases "messages s")
     (auto simp: gtk_statusbar_remove_def messages_pop remove_link_at [of "[]", simplified])

text \<open>
  Claim C3. From any state and for a message id above 0, \<^verbatim>\<open>gtk_statusbar_remove\<close>
  takes out the first message whose context id and message id both equal the
  arguments, and nothing when there is none: at most one message goes, and the
  messages that differ in context id or message id stay, in their order.
\<close>

theorem gtk_statusbar_remove_frame:
  "0 < mid \<Longrightarrow>
   ((\<forall>m\<in>set (messages s). \<not> (context_id m = c \<and> message_id m = mid)) \<longrightarrow>
      messages (gtk_statusbar_remove s c mid) = messages s) \<and>
   (\<forall>pre m post. messages s = pre @ m # post \<and> context_id m = c \<and> message_id m = mid \<and>
        (\<forall>x\<in>set pre. \<not> (context_id x = c \<and> message_id x = mid)) \<longrightarrow>
      messages (gtk_statusbar_remove s c mid) = pre @ post) \<and>
   filter (\<lambda>m. context_id m \<noteq> c \<or> message_id m \<noteq> mid) (messages (gtk_statusbar_remove s c mid)) =
     filter (\<lambda>m. context_id m \<noteq> c \<or> message_id m \<noteq> mid) (messages s) \<and>
   length (messages s) \<le> Suc (length (messages (gtk_statusbar_remove s c mid)))"
proof -
  assume pos: "0 < mid"
  let ?P = "\<lambda>m. context_id m = c \<and> message_id m = mid"
  let ?r = "messages (gtk_statusbar_remove s c mid)"
  have none: "?r = messages s" if "\<forall>m\<in>set (messages s). \<not> ?P m"
    using that pos by (simp add: messages_remove remove_loop_none)
  have first: "?r = pre @ post"
    if "messages s = pre @ m # post" "?P m" "\<forall>x\<in>set pre. \<not> ?P x" for pre m post
    using that pos by (simp add: messages_remove remove_loop_first)
  have rest: "filter (\<lambda>m. \<not> ?P m) ?r = filter (\<lambda>m. \<not> ?P m) (messages s) \<and>
      length (messages s) \<le> Suc (length ?r)"
  proof (cases "\<exists>m\<in>set (messages s). ?P m")
    case True
    then obtain pre m post where
      "messages s = pre @ m # post" "?P m" "\<forall>x\<in>set pre. \<not> ?P x"
      using split_list_first_prop [of "messages s" ?P] by blast
    then show ?thesis using first [of pre m post] by simp
  next
    case False
    then show ?thesis using none by simp
  qed
  show ?thesis using none first rest by (simp add: de_Morgan_conj)
qed

theorem gtk_statusbar_remove_frame_witness:
  "(0::guint) < 2 \<and>
   messages (gtk_statusbar_remove three_messages 2 2) =
     [\<lparr>msg_text = Some ''third'', context_id = 1, message_id = 3\<rparr>,
      \<lparr>msg_text = Some ''first'', context_id = 1, message_id = 1\<rparr>] \<and>
   messages (gtk_statusbar_remove three_messages 2 1) = messages three_messages"
proof -
  have pos: "(0::guint) < 2" and pos1: "(0::guint) < 1" by simp_all
  have "messages (gtk_statusbar_remove three_messages 2 2) =
     [\<lparr>msg_text = Some ''third'', context_id = 1, message_id = 3\<rparr>] @
     [\<lparr>msg_text = Some ''first'', context_id = 1, message_id = 1\<rparr>]"
    using gtk_statusbar_remove_frame [OF pos, of three_messages 2, THEN conjunct2, THEN conjunct1,
        rule_format, of "[\<lparr>msg_text = Some ''third'', context_id = 1, message_id = 3\<rparr>]"
        "\<lparr>msg_text = Some ''second'', context_id = 2, message_id = 2\<rparr>"
        "[\<lparr>msg_text = Some ''first'', context_id = 1, message_id = 1\<rparr>]"]
    by (simp add: three_messages_def)
  moreover have "messages (gtk_statusbar_remove three_messages 2 1) = messages three_messages"
    using gtk_statusbar_remove_frame [OF pos1, of three_messages 2]
    by (simp add: three_messages_def)
  ultimately show ?thesis using pos by simp
qed

subsection \<open>The label\<close>

lemma remove_loop_keeps_top:
  assumes "\<not> (context_id m0 = c \<and> message_id m0 = mid)"
  shows "\<exists>rest'. remove_loop c mid (m0 # rest) (m0 # rest) 0 = m0 # rest'"
proof (cases "\<exists>m\<in>set rest. context_id m = c \<and> message_id m = mid")
  case True
  then obtain pre m post where
    *: "rest = pre @ m # post" "context_id m = c \<and> message_id m = mid"
       "\<forall>x\<in>set pre. \<not> (context_id x = c \<and> message_id x = mid)"
    using split_list_first_prop [of rest "\<lambda>m. context_id m = c \<and> message_id m = mid"] by blast
  with assms have "remove_loop c mid ((m0 # pre) @ m # post) ((m0 # pre) @ m # post) 0 = (m0 # pre) @ post"
    by (intro remove_loop_first) auto
  with * show ?thesis by simp
next
  case False
  with assms have "remove_loop c mid (m0 # rest) (m0 # rest) 0 = m0 # rest"
    by (intro remove_loop_none) auto
  then show ?thesis by simp
qed

lemma label_shows_top_pop: "label_shows_top (gtk_statusbar_pop s c)"
  by (simp add: label_shows_top_def label_pop)

lemma label_shows_top_push: "label_shows_top (snd (gtk_statusbar_push s c (Some t)))"
  by (simp add: label_shows_top_def push_Some top_text_def)

lemma label_shows_top_exec:
  assumes "label_shows_top s"
  shows "label_shows_top (exec call s)"
proof (cases call)
  case (Get_context_id d)
  with assms show ?thesis
    by (auto simp: label_shows_top_def gtk_statusbar_get_context_id_def g_object_set_data_full_def
        Let_def split: option.splits)
next
  case (Push c tx)
  with assms show ?thesis
    by (cases tx) (simp_all add: label_shows_top_push, simp add: gtk_statusbar_push_def)
next
  case (Pop c)
  then show ?thesis by (simp add: label_shows_top_pop)
next
  case (Remove c mid)
  show ?thesis
  proof (cases "messages s")
    case Nil
    with assms Remove show ?thesis by (simp add: gtk_statusbar_remove_def)
  next
    case (Cons m0 rest)
    show ?thesis
    proof (cases "0 < mid \<and> \<not> (context_id m0 = c \<and> message_id m0 = mid)")
      case True
      then obtain rest' where "remove_loop c mid (m0 # rest) (m0 # rest) 0 = m0 # rest'"
        using remove_loop_keeps_top [of m0 c mid rest] by blast
      with assms Remove Cons True show ?thesis
        by (auto simp: gtk_statusbar_remove_def label_shows_top_def top_text_def)
    next
      case False
      with assms Remove Cons show ?thesis
        by (auto simp: gtk_statusbar_remove_def label_shows_top_pop)
    qed
  qed
next
  case (Remove_all c)
  with assms show ?thesis
    by (cases "messages s")
       (auto simp: gtk_statusbar_remove_all_def Let_def label_shows_top_pop,
        auto simp: label_shows_top_def top_text_def)
qed

lemma label_shows_top_run: "label_shows_top s \<Longrightarrow> label_shows_top (run cs s)"
  unfolding run_def by (induction cs arbitrary: s) (simp_all add: label_shows_top_exec)

text \<open>
  A new statusbar whose template gives the label no text shows the top of its stack
  from the start.
\<close>

lemma label_shows_top_init: "label_shows_top (run cs (gtk_statusbar_init []))"
  by (rule label_shows_top_run) (simp add: label_shows_top_def gtk_statusbar_init_def top_text_def)

text \<open>
  Claim C1. From any state, a push with a text puts a new message with the given
  context id and text (and the next message id) on top of the stack, above the
  messages stored before, which are unchanged; it emits \<^verbatim>\<open>text-pushed\<close>, the label
  shows the text pushed, and after any further calls the label still shows the text
  of the topmost message (the empty string for an empty stack or a \<^verbatim>\<open>NULL\<close> text).
\<close>

theorem gtk_statusbar_push_stacks:
  "gtk_statusbar_push s c (Some t) = (mid, s') \<Longrightarrow>
     messages s' = \<lparr>msg_text = Some t, context_id = c, message_id = seq_message_id s\<rparr> # messages s \<and>
     mid = seq_message_id s \<and>
     emitted s' = emitted s @ [(SIGNAL_TEXT_PUSHED, c, Some t)] \<and>
     label s' = t \<and>
     label (run cs s') = top_text (messages (run cs s'))"
proof -
  assume push: "gtk_statusbar_push s c (Some t) = (mid, s')"
  then have "label_shows_top s'"
    using label_shows_top_push [of s c t] by simp
  then have "label_shows_top (run cs s')"
    by (rule label_shows_top_run)
  with push show ?thesis
    by (auto simp: push_Some label_shows_top_def)
qed

theorem gtk_statusbar_push_stacks_witness:
  "messages (snd (gtk_statusbar_push three_messages 2 (Some ''fourth''))) =
     \<lparr>msg_text = Some ''fourth'', context_id = 2, message_id = 4\<rparr> # messages three_messages \<and>
   fst (gtk_statusbar_push three_messages 2 (Some ''fourth'')) = 4 \<and>
   label (snd (gtk_statusbar_push three_messages 2 (Some ''fourth''))) = ''fourth'' \<and>
   label (run [Pop 1] (snd (gtk_statusbar_push three_messages 2 (Some ''fourth'')))) =
     top_text (messages (run [Pop 1] (snd (gtk_statusbar_push three_messages 2 (Some ''fourth'')))))"
  using gtk_statusbar_push_stacks [of three_messages 2 "''fourth''"
      "fst (gtk_statusbar_push three_messages 2 (Some ''fourth''))"
      "snd (gtk_statusbar_push three_messages 2 (Some ''fourth''))" "[Pop 1]"]
  by (simp add: three_messages_def)

subsection \<open>Message ids\<close>

lemma run_Nil [simp]: "run [] s = s" by (simp add: run_def)
lemma run_Cons [simp]: "run (c # cs) s = run cs (exec c s)" by (simp add: run_def)
lemma run_append: "run (a @ b) s = run b (run a s)" by (simp add: run_def)

lemma seq_message_id_emit [simp]: "seq_message_id (g_signal_emit s sig c t) = seq_message_id s"
  by (simp add: g_signal_emit_def gtk_statusbar_update_def)

lemma seq_message_id_pop [simp]: "seq_message_id (gtk_statusbar_pop s c) = seq_message_id s"
  by (simp add: gtk_statusbar_pop_def Let_def split: list.splits)

lemma seq_message_id_exec:
  "seq_message_id (exec call s) = seq_message_id s + (if is_push call then 1 else 0)"
proof (cases call)
  case (Push c tx)
  then show ?thesis by (cases tx) (simp_all add: push_Some, simp add: gtk_statusbar_push_def)
next
  case (Get_context_id d)
  then show ?thesis
    by (simp add: gtk_statusbar_get_context_id_def g_object_set_data_full_def Let_def split: option.splits)
next
  case (Remove c mid)
  then show ?thesis
    by (simp add: gtk_statusbar_remove_def split: list.splits)
next
  case (Remove_all c)
  then show ?thesis
    by (simp add: gtk_statusbar_remove_all_def Let_def split: list.splits)
qed simp

lemma npush_snoc: "npush (cs @ [call]) = npush cs + (if is_push call then 1 else 0)"
  by (simp add: npush_def)

lemma seq_message_id_run:
  "seq_message_id (run cs s) = seq_message_id s + of_nat (npush cs)"
  by (induction cs rule: rev_induct) (simp_all add: run_append npush_snoc seq_message_id_exec npush_def)

text \<open>A call that is not a push with a text only takes messages away.\<close>

lemma ids_ok_remove1: "ids_ok n (pre @ m # post) \<Longrightarrow> ids_ok n (pre @ post)"
  by (auto simp: ids_ok_def)

lemma ids_ok_filter: "ids_ok n ms \<Longrightarrow> ids_ok n (filter P ms)"
  by (auto simp: ids_ok_def distinct_map_filter)

lemma ids_ok_pop: "ids_ok n (messages s) \<Longrightarrow> ids_ok n (messages (gtk_statusbar_pop s c))"
proof (cases "\<exists>m\<in>set (messages s). context_id m = c")
  case True
  assume ok: "ids_ok n (messages s)"
  from True obtain pre m post where
    *: "messages s = pre @ m # post" "context_id m = c" "\<forall>x\<in>set pre. context_id x \<noteq> c"
    using split_list_first_prop [of "messages s" "\<lambda>m. context_id m = c"] by blast
  then have "messages (gtk_statusbar_pop s c) = pre @ post"
    by (simp add: messages_pop pop_loop_first)
  with ok * show ?thesis using ids_ok_remove1 [of n pre m post] by simp
next
  case False
  assume "ids_ok n (messages s)"
  with False show ?thesis by (simp add: messages_pop pop_loop_none)
qed

lemma ids_ok_remove:
  assumes "ids_ok n (messages s)"
  shows "ids_ok n (messages (gtk_statusbar_remove s c mid))"
proof (cases "0 < mid")
  case pos: True
  show ?thesis
  proof (cases "\<exists>m\<in>set (messages s). context_id m = c \<and> message_id m = mid")
    case True
    then obtain pre m post where
      *: "messages s = pre @ m # post" "context_id m = c \<and> message_id m = mid"
         "\<forall>x\<in>set pre. \<not> (context_id x = c \<and> message_id x = mid)"
      using split_list_first_prop [of "messages s" "\<lambda>m. context_id m = c \<and> message_id m = mid"] by blast
    then have "messages (gtk_statusbar_remove s c mid) = pre @ post"
      using pos by (simp add: messages_remove remove_loop_first)
    with assms * show ?thesis using ids_ok_remove1 [of n pre m post] by simp
  next
    case False
    with assms pos show ?thesis by (simp add: messages_remove remove_loop_none)
  qed
next
  case False
  with assms show ?thesis by (simp add: gtk_statusbar_remove_def)
qed

lemma messages_remove_all:
  "messages (gtk_statusbar_remove_all s c) = filter (\<lambda>m. context_id m \<noteq> c) (messages s)"
  by (cases "messages s")
     (simp_all add: gtk_statusbar_remove_all_def Let_def messages_pop remove_all_loop_filter)

lemma messages_get_context_id [simp]:
  "messages (snd (gtk_statusbar_get_context_id s d)) = messages s"
  by (simp add: gtk_statusbar_get_context_id_def g_object_set_data_full_def Let_def split: option.splits)

lemma ids_ok_exec:
  assumes "ids_ok n (messages s)" and "\<not> is_push call"
  shows "ids_ok n (messages (exec call s))"
proof (cases call)
  case (Push c tx)
  with assms show ?thesis by (cases tx) (simp_all add: gtk_statusbar_push_def)
qed (use assms in \<open>simp_all add: ids_ok_pop ids_ok_remove messages_remove_all ids_ok_filter\<close>)

lemma ids_ok_mono: "ids_ok n ms \<Longrightarrow> n \<le> k \<Longrightarrow> ids_ok k ms"
  by (fastforce simp: ids_ok_def)

lemma unat_seq_after:
  assumes "n + 1 < 2 ^ 32"
  shows "unat (1 + of_nat n :: guint) = n + 1"
proof -
  have "unat (of_nat (n + 1) :: guint) = n + 1"
    using assms by (intro of_nat_inverse) simp_all
  then show ?thesis by (simp add: add.commute)
qed

lemma ids_ok_run:
  "npush cs < 2 ^ 32 \<Longrightarrow> ids_ok (npush cs) (messages (run cs (gtk_statusbar_init tmpl)))"
proof (induction cs rule: rev_induct)
  case Nil
  then show ?case by (simp add: ids_ok_def gtk_statusbar_init_def)
next
  case (snoc call cs)
  let ?s = "run cs (gtk_statusbar_init tmpl)"
  from snoc.prems have less: "npush cs < 2 ^ 32" by (simp add: npush_snoc)
  then have ok: "ids_ok (npush cs) (messages ?s)" by (rule snoc.IH)
  show ?case
  proof (cases "is_push call")
    case False
    with ok show ?thesis by (simp add: run_append npush_snoc ids_ok_exec)
  next
    case True
    then obtain c t where call: "call = Push c (Some t)"
      by (cases call rule: is_push.cases) simp_all
    from snoc.prems True have bound: "npush cs + 1 < 2 ^ 32" by (simp add: npush_snoc)
    have seq: "seq_message_id ?s = 1 + of_nat (npush cs)"
      by (simp add: seq_message_id_run gtk_statusbar_init_def)
    have new: "unat (seq_message_id ?s) = npush cs + 1"
      unfolding seq using bound by (rule unat_seq_after)
    have "ids_ok (npush cs + 1)
        (\<lparr>msg_text = Some t, context_id = c, message_id = seq_message_id ?s\<rparr> # messages ?s)"
      using ok new by (fastforce simp: ids_ok_def)
    then show ?thesis by (simp add: run_append npush_snoc call True push_Some)
  qed
qed

text \<open>
  Claim C9, amended. On a new statusbar, push number \<open>k\<close> returns the message id \<open>k\<close>
  for every \<open>k\<close> up to \<open>2^32 - 1\<close>, so the ids increase strictly from 1; and in every
  state reached with at most \<open>2^32 - 1\<close> pushes the messages on the stack have
  pairwise distinct message ids, none of them 0.
\<close>

theorem message_ids_increase_until_wrap:
  "(npush cs < 2 ^ 32 - 1 \<longrightarrow>
      unat (fst (gtk_statusbar_push (run cs (gtk_statusbar_init tmpl)) c (Some t))) = npush cs + 1) \<and>
   (npush cs < 2 ^ 32 \<longrightarrow>
      distinct (map message_id (messages (run cs (gtk_statusbar_init tmpl)))) \<and>
      (\<forall>m\<in>set (messages (run cs (gtk_statusbar_init tmpl))). message_id m \<noteq> 0))"
proof (intro conjI impI)
  assume "npush cs < 2 ^ 32 - 1"
  then have "npush cs + 1 < 2 ^ 32" by simp
  then have "unat (1 + of_nat (npush cs) :: guint) = npush cs + 1" by (rule unat_seq_after)
  then show "unat (fst (gtk_statusbar_push (run cs (gtk_statusbar_init tmpl)) c (Some t))) = npush cs + 1"
    by (simp add: push_Some seq_message_id_run gtk_statusbar_init_def)
next
  assume "npush cs < 2 ^ 32"
  then have ok: "ids_ok (npush cs) (messages (run cs (gtk_statusbar_init tmpl)))" by (rule ids_ok_run)
  then show "distinct (map message_id (messages (run cs (gtk_statusbar_init tmpl))))"
    by (simp add: ids_ok_def)
  from ok show "\<forall>m\<in>set (messages (run cs (gtk_statusbar_init tmpl))). message_id m \<noteq> 0"
    by (auto simp: ids_ok_def)
qed

theorem message_ids_increase_until_wrap_witness:
  "npush [Push 1 (Some ''a''), Pop 1, Push 2 (Some ''b'')] < 2 ^ 32 - 1 \<and>
   unat (fst (gtk_statusbar_push
     (run [Push 1 (Some ''a''), Pop 1, Push 2 (Some ''b'')] (gtk_statusbar_init [])) 3 (Some ''c''))) = 3 \<and>
   distinct (map message_id (messages
     (run [Push 1 (Some ''a''), Pop 1, Push 2 (Some ''b'')] (gtk_statusbar_init []))))"
  using message_ids_increase_until_wrap
    [of "[Push 1 (Some ''a''), Pop 1, Push 2 (Some ''b'')]" "[]" 3 "''c''"]
  by (simp add: npush_def)

lemma push_pop_times_run:
  "messages (run (push_pop_times n) s) = messages s \<and>
   seq_message_id (run (push_pop_times n) s) = seq_message_id s + of_nat n"
  by (induction n arbitrary: s) (simp_all add: push_Some messages_pop)

text \<open>
  Claim C9 as stated fails once \<^verbatim>\<open>seq_message_id\<close> has wrapped around. After
  \<open>2^32 - 1\<close> pushes, each popped again, the next push returns the message id 0.
  And when a first message stays on the stack while \<open>2^32 - 1\<close> further messages
  are pushed and popped, the message pushed after them gets the id 1 again: the
  stack then holds two messages with the message id 1 (and the same context id).
\<close>

theorem message_id_wraps_counterexample:
  "map message_id (messages (run (push_pop_times 4294967295 @ [Push 1 (Some ''m'')]) (gtk_statusbar_init []))) = [0] \<and>
   map message_id (messages (run (Push 1 (Some ''a'') # push_pop_times 4294967295 @ [Push 1 (Some ''b'')])
       (gtk_statusbar_init []))) = [1, 1]"
  using push_pop_times_run [of 4294967295 "gtk_statusbar_init []"]
    push_pop_times_run [of 4294967295 "exec (Push 1 (Some ''a'')) (gtk_statusbar_init [])"]
  by (simp add: run_append push_Some gtk_statusbar_init_def)

subsection \<open>Context ids\<close>

lemma context_key_inj [simp]: "context_key d = context_key d' \<longleftrightarrow> d = d'"
  by (simp add: context_key_def)

lemma get_context_id_known:
  assumes "object_data s (context_key d) = Some v" and "v \<noteq> 0"
  shows "gtk_statusbar_get_context_id s (Some d) = (v, s)"
  using assms
  by (simp add: gtk_statusbar_get_context_id_def g_object_get_data_def context_key_def)

lemma get_context_id_new:
  assumes "object_data s (context_key d) = None"
  shows "fst (gtk_statusbar_get_context_id s (Some d)) = seq_context_id s"
    and "seq_context_id (snd (gtk_statusbar_get_context_id s (Some d))) = seq_context_id s + 1"
    and "object_data (snd (gtk_statusbar_get_context_id s (Some d))) =
           (if seq_context_id s = 0 then object_data s
            else (object_data s)(context_key d \<mapsto> seq_context_id s))"
  using assms
  by (auto simp: gtk_statusbar_get_context_id_def g_object_get_data_def g_object_set_data_full_def
      context_key_def Let_def)

lemma object_data_emit [simp]: "object_data (g_signal_emit s sig c t) = object_data s"
  by (simp add: g_signal_emit_def gtk_statusbar_update_def)

lemma seq_context_id_emit [simp]: "seq_context_id (g_signal_emit s sig c t) = seq_context_id s"
  by (simp add: g_signal_emit_def gtk_statusbar_update_def)

lemma context_part_pop [simp]:
  "object_data (gtk_statusbar_pop s c) = object_data s"
  "seq_context_id (gtk_statusbar_pop s c) = seq_context_id s"
  by (simp_all add: gtk_statusbar_pop_def Let_def split: list.splits)

lemma context_part_exec:
  assumes "call_desc call = []"
  shows "object_data (exec call s) = object_data s \<and> seq_context_id (exec call s) = seq_context_id s"
proof (cases call)
  case (Get_context_id d)
  with assms show ?thesis by (cases d) (simp_all add: gtk_statusbar_get_context_id_def)
next
  case (Push c tx)
  then show ?thesis by (cases tx) (simp_all add: push_Some, simp add: gtk_statusbar_push_def)
next
  case (Remove c mid)
  then show ?thesis by (simp add: gtk_statusbar_remove_def split: list.splits)
next
  case (Remove_all c)
  then show ?thesis by (simp add: gtk_statusbar_remove_all_def Let_def split: list.splits)
qed simp

lemma call_desc_cases:
  obtains d where "call = Get_context_id (Some d)" | "call_desc call = []"
  by (cases call rule: call_desc.cases) simp_all

text \<open>An id that is stored stays stored.\<close>

lemma object_data_kept_exec:
  assumes "object_data s k = Some v" and "v \<noteq> 0"
  shows "object_data (exec call s) k = Some v"
proof (cases call rule: call_desc_cases)
  case (1 d)
  show ?thesis
  proof (cases "object_data s (context_key d)")
    case None
    with assms have "context_key d \<noteq> k" by auto
    with assms 1 None show ?thesis by (simp add: get_context_id_new)
  next
    case (Some w)
    show ?thesis
    proof (cases "w = 0")
      case True
      with Some assms have ne: "context_key d \<noteq> k" by auto
      from Some True have "g_object_get_data s (context_key d) = 0"
        by (simp add: g_object_get_data_def)
      with assms 1 ne show ?thesis
        by (auto simp: gtk_statusbar_get_context_id_def g_object_set_data_full_def
            context_key_def Let_def)
    next
      case False
      with Some assms 1 show ?thesis by (simp add: get_context_id_known)
    qed
  qed
next
  case 2
  with assms show ?thesis by (simp add: context_part_exec)
qed

lemma object_data_kept_run:
  "object_data s k = Some v \<Longrightarrow> v \<noteq> 0 \<Longrightarrow> object_data (run cs s) k = Some v"
  by (induction cs arbitrary: s) (simp_all add: object_data_kept_exec)

lemma descs_snoc: "descs (cs @ [call]) = descs cs \<union> set (call_desc call)"
  by (simp add: descs_def)

lemma finite_descs [simp]: "finite (descs cs)"
  by (simp add: descs_def)

lemma unat_count_after:
  assumes "n + 1 < 2 ^ 32"
  shows "unat (of_nat n + 1 :: guint) = n + 1"
proof -
  have "unat (of_nat (n + 1) :: guint) = n + 1"
    using assms by (intro of_nat_inverse) simp_all
  then show ?thesis by (simp add: add.commute)
qed

text \<open>
  While fewer than \<open>2^32\<close> descriptions have been seen, the counter is one above their
  number, the data list holds exactly their keys, and the ids stored are pairwise
  distinct and lie between 1 and that number.
\<close>

lemma context_ids_run:
  assumes "card (descs cs) < 2 ^ 32"
  shows "seq_context_id (run cs (gtk_statusbar_init tmpl)) = of_nat (card (descs cs)) + 1 \<and>
         dom (object_data (run cs (gtk_statusbar_init tmpl))) = context_key ` descs cs \<and>
         context_ids_ok (card (descs cs)) (object_data (run cs (gtk_statusbar_init tmpl)))"
  using assms
proof (induction cs rule: rev_induct)
  case Nil
  then show ?case by (simp add: gtk_statusbar_init_def descs_def context_ids_ok_def)
next
  case (snoc call cs)
  let ?s = "run cs (gtk_statusbar_init tmpl)"
  let ?n = "card (descs cs)"
  have "descs cs \<subseteq> descs (cs @ [call])" by (auto simp: descs_snoc)
  then have "?n \<le> card (descs (cs @ [call]))" by (intro card_mono) simp_all
  with snoc.prems have "?n < 2 ^ 32" by simp
  then have seq: "seq_context_id ?s = of_nat ?n + 1"
    and dom: "dom (object_data ?s) = context_key ` descs cs"
    and ok: "context_ids_ok ?n (object_data ?s)"
    using snoc.IH by simp_all
  show ?case
  proof (cases call rule: call_desc_cases)
    case 2
    then show ?thesis using seq dom ok by (simp add: run_append descs_snoc context_part_exec)
  next
    case (1 d)
    show ?thesis
    proof (cases "d \<in> descs cs")
      case True
      then have same: "descs (cs @ [call]) = descs cs" using 1 by (auto simp: descs_snoc)
      from True dom obtain v where v: "object_data ?s (context_key d) = Some v" by auto
      with ok have "0 < unat v" unfolding context_ids_ok_def by blast
      then have "v \<noteq> 0" by auto
      with v have "exec call ?s = ?s" using 1 by (simp add: get_context_id_known)
      then show ?thesis using seq dom ok same by (simp add: run_append)
    next
      case False
      then have more: "descs (cs @ [call]) = insert d (descs cs)"
        and card: "card (descs (cs @ [call])) = ?n + 1"
        using 1 by (auto simp: descs_snoc)
      from False have "context_key d \<notin> context_key ` descs cs" by auto
      with dom have none: "object_data ?s (context_key d) = None" by (simp add: domIff flip: dom)

      from snoc.prems card have bound: "?n + 1 < 2 ^ 32" by simp
      then have new: "unat (seq_context_id ?s) = ?n + 1"
        unfolding seq by (rule unat_count_after)
      then have nz: "seq_context_id ?s \<noteq> 0" by auto
      let ?s' = "exec call ?s"
      have data: "object_data ?s' = (object_data ?s)(context_key d \<mapsto> seq_context_id ?s)"
        and seq': "seq_context_id ?s' = seq_context_id ?s + 1"
        using 1 none nz by (simp_all add: get_context_id_new)
      have "seq_context_id ?s' = of_nat (?n + 1) + 1"
        using seq' seq by simp
      moreover have "dom (object_data ?s') = context_key ` insert d (descs cs)"
        using data dom by simp
      moreover have "context_ids_ok (?n + 1) (object_data ?s')"
        unfolding context_ids_ok_def
      proof (intro conjI allI impI)
        fix k k' v assume v: "object_data ?s' k = Some v \<and> object_data ?s' k' = Some v"
        show "k = k'"
        proof (cases "k = context_key d"; cases "k' = context_key d")
          assume a: "k = context_key d" "k' \<noteq> context_key d"
          with v data have "v = seq_context_id ?s" "object_data ?s k' = Some v" by auto
          with ok new show ?thesis by (fastforce simp: context_ids_ok_def)
        next
          assume a: "k \<noteq> context_key d" "k' = context_key d"
          with v data have "v = seq_context_id ?s" "object_data ?s k = Some v" by auto
          with ok new show ?thesis by (fastforce simp: context_ids_ok_def)
        next
          assume a: "k \<noteq> context_key d" "k' \<noteq> context_key d"
          with v data have "object_data ?s k = Some v" "object_data ?s k' = Some v" by auto
          with ok show ?thesis unfolding context_ids_ok_def by blast
        qed simp
      next
        fix k v assume "object_data ?s' k = Some v"
        with data new ok show "0 < unat v" "unat v \<le> ?n + 1"
          by (auto simp: context_ids_ok_def split: if_splits) fastforce+
      qed
      ultimately show ?thesis using more card by (simp add: run_append)
    qed
  qed
qed

lemma next_id_differs:
  assumes "n < 2 ^ 32" and "0 < unat i" and "unat i \<le> n"
  shows "(of_nat n + 1 :: guint) \<noteq> i"
proof
  assume "of_nat n + 1 = i"
  then have "unat i = unat (of_nat (n + 1) :: guint)" by (auto simp: add.commute)
  also have "\<dots> = (n + 1) mod 2 ^ 32" by (simp only: unat_of_nat) simp
  finally have *: "unat i = (n + 1) mod 2 ^ 32" .
  show False
  proof (cases "n + 1 < 2 ^ 32")
    case True
    with * assms show False by simp
  next
    case False
    with assms have "n + 1 = 2 ^ 32" by simp
    with * assms show False by simp
  qed
qed

lemma get_context_id_stored:
  assumes "card (descs (cs @ [Get_context_id (Some d)])) < 2 ^ 32"
  shows "object_data (snd (gtk_statusbar_get_context_id (run cs (gtk_statusbar_init tmpl)) (Some d)))
           (context_key d) =
         Some (fst (gtk_statusbar_get_context_id (run cs (gtk_statusbar_init tmpl)) (Some d))) \<and>
         fst (gtk_statusbar_get_context_id (run cs (gtk_statusbar_init tmpl)) (Some d)) \<noteq> 0 \<and>
         (d \<notin> descs cs \<longrightarrow>
            unat (fst (gtk_statusbar_get_context_id (run cs (gtk_statusbar_init tmpl)) (Some d))) =
              card (descs cs) + 1)"
proof -
  let ?s = "run cs (gtk_statusbar_init tmpl)"
  let ?n = "card (descs cs)"
  have "descs cs \<subseteq> descs (cs @ [Get_context_id (Some d)])" by (auto simp: descs_snoc)
  then have "?n \<le> card (descs (cs @ [Get_context_id (Some d)]))" by (intro card_mono) simp_all
  with assms have "?n < 2 ^ 32" by simp
  then have seq: "seq_context_id ?s = of_nat ?n + 1"
    and dom: "dom (object_data ?s) = context_key ` descs cs"
    and ok: "context_ids_ok ?n (object_data ?s)"
    using context_ids_run [of cs tmpl] by simp_all
  show ?thesis
  proof (cases "d \<in> descs cs")
    case True
    with dom obtain v where v: "object_data ?s (context_key d) = Some v" by auto
    with ok have "0 < unat v" unfolding context_ids_ok_def by blast
    then have "v \<noteq> 0" by auto
    with v True show ?thesis by (simp add: get_context_id_known)
  next
    case False
    then have "context_key d \<notin> context_key ` descs cs" by auto
    with dom have none: "object_data ?s (context_key d) = None" by (simp add: domIff flip: dom)
    from False have "card (descs (cs @ [Get_context_id (Some d)])) = ?n + 1"
      by (simp add: descs_snoc)
    with assms have "?n + 1 < 2 ^ 32" by simp
    then have new: "unat (seq_context_id ?s) = ?n + 1"
      unfolding seq by (rule unat_count_after)
    then have "seq_context_id ?s \<noteq> 0" by auto
    with none new show ?thesis by (simp add: get_context_id_new)
  qed
qed

lemma descs_append: "descs (a @ b) = descs a \<union> descs b"
  by (simp add: descs_def)

lemma descs_Cons: "descs (c # cs) = set (call_desc c) \<union> descs cs"
  by (simp add: descs_def)

text \<open>
  Claim C8, amended. Take any calls \<open>cs\<close> on a new statusbar, then a call of
  \<^verbatim>\<open>gtk_statusbar_get_context_id\<close> with a description \<open>d\<close>, then any calls \<open>cs'\<close>, such
  that all of them together name fewer than \<open>2^32\<close> different descriptions. Then the
  id returned for \<open>d\<close> is not 0; asking again for \<open>d\<close> after \<open>cs'\<close> returns the same id;
  if \<open>d\<close> was not seen before, its id is the number of descriptions seen before plus
  one (the counter starts at 1); and every other description gets a different id.
\<close>

theorem context_ids_stable_until_wrap:
  "card (descs (cs @ Get_context_id (Some d) # cs')) < 2 ^ 32 \<Longrightarrow>
   (let s0 = run cs (gtk_statusbar_init tmpl);
        i = fst (gtk_statusbar_get_context_id s0 (Some d));
        s2 = run cs' (snd (gtk_statusbar_get_context_id s0 (Some d)))
    in i \<noteq> 0 \<and>
       fst (gtk_statusbar_get_context_id s2 (Some d)) = i \<and>
       (d \<notin> descs cs \<longrightarrow> unat i = card (descs cs) + 1) \<and>
       (\<forall>d'. d' \<noteq> d \<longrightarrow> fst (gtk_statusbar_get_context_id s2 (Some d')) \<noteq> i))"
proof -
  let ?all = "cs @ Get_context_id (Some d) # cs'"
  let ?N = "card (descs ?all)"
  let ?s0 = "run cs (gtk_statusbar_init tmpl)"
  let ?i = "fst (gtk_statusbar_get_context_id ?s0 (Some d))"
  let ?s1 = "snd (gtk_statusbar_get_context_id ?s0 (Some d))"
  let ?s2 = "run cs' ?s1"
  assume bound: "?N < 2 ^ 32"
  have s2: "?s2 = run ?all (gtk_statusbar_init tmpl)" by (simp add: run_append)
  have "descs (cs @ [Get_context_id (Some d)]) \<subseteq> descs ?all"
    by (auto simp: descs_def)
  then have "card (descs (cs @ [Get_context_id (Some d)])) \<le> ?N" by (intro card_mono) simp_all
  with bound have "card (descs (cs @ [Get_context_id (Some d)])) < 2 ^ 32" by simp
  then have stored: "object_data ?s1 (context_key d) = Some ?i" and nz: "?i \<noteq> 0"
    and fresh: "d \<notin> descs cs \<longrightarrow> unat ?i = card (descs cs) + 1"
    using get_context_id_stored [of cs d tmpl] by simp_all
  from stored nz have kept: "object_data ?s2 (context_key d) = Some ?i"
    by (rule object_data_kept_run)
  with nz have again: "fst (gtk_statusbar_get_context_id ?s2 (Some d)) = ?i"
    by (simp add: get_context_id_known)
  have seq: "seq_context_id ?s2 = of_nat ?N + 1"
    and dom: "dom (object_data ?s2) = context_key ` descs ?all"
    and ok: "context_ids_ok ?N (object_data ?s2)"
    using context_ids_run [OF bound, of tmpl] by (simp_all only: s2)
  from ok kept have range: "0 < unat ?i" "unat ?i \<le> ?N"
    unfolding context_ids_ok_def by blast+
  have other: "fst (gtk_statusbar_get_context_id ?s2 (Some d')) \<noteq> ?i" if "d' \<noteq> d" for d'
  proof (cases "object_data ?s2 (context_key d')")
    case None
    then have "fst (gtk_statusbar_get_context_id ?s2 (Some d')) = of_nat ?N + 1"
      by (simp add: get_context_id_new seq)
    with bound range show ?thesis by (simp add: next_id_differs)
  next
    case (Some v)
    with ok have "0 < unat v" unfolding context_ids_ok_def by blast
    then have "v \<noteq> 0" by auto
    with Some have ret: "fst (gtk_statusbar_get_context_id ?s2 (Some d')) = v"
      by (simp add: get_context_id_known)
    have "v \<noteq> ?i"
    proof
      assume "v = ?i"
      with Some kept ok have "context_key d' = context_key d"
        unfolding context_ids_ok_def by blast
      with that show False by simp
    qed
    with ret show ?thesis by simp
  qed
  show ?thesis
    unfolding Let_def using nz again fresh other by blast
qed

theorem context_ids_stable_until_wrap_witness:
  "card (descs ([Get_context_id (Some ''open'')] @ Get_context_id (Some ''save'') # [Push 2 (Some ''saved'')])) < 2 ^ 32 \<and>
   fst (gtk_statusbar_get_context_id
     (run [Get_context_id (Some ''open'')] (gtk_statusbar_init [])) (Some ''save'')) = 2 \<and>
   fst (gtk_statusbar_get_context_id
     (run [Push 2 (Some ''saved'')]
        (snd (gtk_statusbar_get_context_id
           (run [Get_context_id (Some ''open'')] (gtk_statusbar_init [])) (Some ''save''))))
     (Some ''save'')) = 2"
proof -
  have c: "card (descs ([Get_context_id (Some ''open'')] @ Get_context_id (Some ''save'') # [Push 2 (Some ''saved'')])) < 2 ^ 32"
    by (simp add: descs_def)
  have i: "fst (gtk_statusbar_get_context_id
     (run [Get_context_id (Some ''open'')] (gtk_statusbar_init [])) (Some ''save'')) = 2"
    by (simp add: gtk_statusbar_get_context_id_def g_object_get_data_def g_object_set_data_full_def
        gtk_statusbar_init_def Let_def)
  show ?thesis
    using context_ids_stable_until_wrap [OF c, of "[]"] c i by (simp add: Let_def)
qed

lemma desc_no_inj: "desc_no m = desc_no n \<Longrightarrow> m = n"
proof (induction m arbitrary: n rule: desc_no.induct)
  case (1 m)
  show ?case
  proof (cases "m = 0")
    case True
    with "1.prems" show ?thesis
      by (cases "n = 0") (simp_all add: desc_no.simps [of 0] desc_no.simps [of n])
  next
    case False
    with "1.prems" have n: "n \<noteq> 0"
      by (cases "n = 0") (simp_all add: desc_no.simps [of 0] desc_no.simps [of m])
    from "1.prems" False n have par: "even m \<longleftrightarrow> even n"
      and rest: "desc_no (m div 2) = desc_no (n div 2)"
      by (simp_all add: desc_no.simps [of m] desc_no.simps [of n] split: if_splits)
    from "1.IH" [OF False rest] have "m div 2 = n div 2" .
    with par show ?thesis by presburger
  qed
qed

lemma desc_no_digits: "set (desc_no n) \<subseteq> {CHR ''0'', CHR ''1''}"
proof (induction n rule: desc_no.induct)
  case (1 n)
  show ?case
  proof (cases "n = 0")
    case True
    then show ?thesis by (simp add: desc_no.simps [of 0])
  next
    case False
    with 1 show ?thesis by (auto simp: desc_no.simps [of n])
  qed
qed

lemma desc_no_other: "desc_no n \<noteq> ''x''"
  using desc_no_digits [of n] by auto

lemma descs_register_first: "descs (register_first n) = desc_no ` {..<n}"
  by (auto simp: descs_def register_first_def)

lemma card_descs_register_first: "card (descs (register_first n)) = n"
proof -
  have "inj_on desc_no {..<n}" by (auto intro: inj_onI dest: desc_no_inj)
  then show ?thesis by (simp add: descs_register_first card_image)
qed

lemma register_first_state:
  assumes "n < 2 ^ 32"
  shows "seq_context_id (run (register_first n) (gtk_statusbar_init tmpl)) = of_nat n + 1"
    and "object_data (run (register_first n) (gtk_statusbar_init tmpl)) (context_key ''x'') = None"
proof -
  let ?s = "run (register_first n) (gtk_statusbar_init tmpl)"
  from assms have "card (descs (register_first n)) < 2 ^ 32"
    by (simp add: card_descs_register_first)
  from context_ids_run [OF this, of tmpl]
  have seq: "seq_context_id ?s = of_nat n + 1"
    and dom: "dom (object_data ?s) = context_key ` descs (register_first n)"
    by (simp_all add: card_descs_register_first)
  show "seq_context_id ?s = of_nat n + 1" by (rule seq)
  have "context_key ''x'' \<notin> context_key ` descs (register_first n)"
    using desc_no_other by (auto simp: eq_commute descs_register_first)
  with dom show "object_data ?s (context_key ''x'') = None"
    by (simp add: domIff flip: dom)
qed

lemma register_first_Suc:
  "run (register_first (Suc n)) s =
     run (map (\<lambda>k. Get_context_id (Some (desc_no k))) [Suc 0..<Suc n])
       (snd (gtk_statusbar_get_context_id s (Some [])))"
  by (simp add: register_first_def upt_conv_Cons desc_no.simps [of 0] del: upt_Suc)

lemma first_description_id:
  "fst (gtk_statusbar_get_context_id (run (register_first (Suc n)) (gtk_statusbar_init tmpl)) (Some [])) = 1"
proof -
  let ?s1 = "snd (gtk_statusbar_get_context_id (gtk_statusbar_init tmpl) (Some []))"
  have "object_data ?s1 (context_key []) = Some 1"
    by (simp add: gtk_statusbar_get_context_id_def g_object_get_data_def g_object_set_data_full_def
        gtk_statusbar_init_def context_key_def Let_def)
  then have "object_data (run (register_first (Suc n)) (gtk_statusbar_init tmpl)) (context_key []) = Some 1"
    unfolding register_first_Suc by (rule object_data_kept_run) simp
  then show ?thesis by (simp add: get_context_id_known)
qed

text \<open>
  Claim C8 as stated fails once \<^verbatim>\<open>seq_context_id\<close> has wrapped around. After the ids
  of \<open>2^32 - 1\<close> different descriptions have been asked for, a new description gets
  the id 0, which is not stored: the next call with the same description returns 1,
  the id that the first description has.
\<close>

theorem context_id_wraps_counterexample:
  "fst (gtk_statusbar_get_context_id
      (run (register_first 4294967295) (gtk_statusbar_init [])) (Some ''x'')) = 0 \<and>
   fst (gtk_statusbar_get_context_id
      (snd (gtk_statusbar_get_context_id
         (run (register_first 4294967295) (gtk_statusbar_init [])) (Some ''x''))) (Some ''x'')) = 1 \<and>
   fst (gtk_statusbar_get_context_id
      (run (register_first 4294967295) (gtk_statusbar_init [])) (Some [])) = 1"
proof -
  let ?s = "run (register_first 4294967295) (gtk_statusbar_init [])"
  have seq: "seq_context_id ?s = 0"
    using register_first_state(1) [of 4294967295 "[]"] by simp
  have none: "object_data ?s (context_key ''x'') = None"
    using register_first_state(2) [of 4294967295 "[]"] by simp
  have first: "fst (gtk_statusbar_get_context_id ?s (Some ''x'')) = 0"
    using get_context_id_new(1) [OF none] seq by simp
  have "seq_context_id (snd (gtk_statusbar_get_context_id ?s (Some ''x''))) = 1"
    and "object_data (snd (gtk_statusbar_get_context_id ?s (Some ''x''))) (context_key ''x'') = None"
    using get_context_id_new(2,3) [OF none] seq none by simp_all
  then have second: "fst (gtk_statusbar_get_context_id
      (snd (gtk_statusbar_get_context_id ?s (Some ''x''))) (Some ''x'')) = 1"
    using get_context_id_new(1) by simp
  have "(4294967295::nat) = Suc 4294967294" by simp
  then have third: "fst (gtk_statusbar_get_context_id ?s (Some [])) = 1"
    using first_description_id [of 4294967294 "[]"] by (simp only:)
  from first second third show ?thesis by (simp only:)
qed

section \<open>Properties of the colour scale\<close>

subsection \<open>Rounding\<close>

text \<open>An integer of at most \<open>p\<close> bits is a number of \<open>p\<close> significant bits.\<close>

lemma round_half_even_of_int [simp]: "round_half_even (of_int a) = a"
  by (simp add: round_half_even_def)

lemma pow2_neg: "pow2 (- int j) = 1 / 2 ^ j"
  by (cases "j = 0") (simp_all add: pow2_def)

lemma binary_exponent_of_int:
  assumes "0 < m"
  shows "binary_exponent (of_int m) = bitlen m - 1"
proof -
  from assms have "1 \<le> bitlen m" by (simp add: bitlen_alt_def)
  moreover from bitlen_bounds [OF assms] have "(2::int) ^ nat (bitlen m - 1) \<le> m" ..
  then have "(of_int ((2::int) ^ nat (bitlen m - 1)) :: rat) \<le> of_int m"
    by (simp only: of_int_le_iff)
  ultimately have "pow2 (bitlen m - 1) \<le> of_int m"
    by (simp add: pow2_def)
  moreover have "bitlen 1 = 1" by (simp add: bitlen_alt_def)
  ultimately show ?thesis
    by (simp add: binary_exponent_def)
qed

lemma round_binary_of_int:
  assumes "\<bar>n\<bar> < 2 ^ p"
  shows "round_binary p (of_int n) = of_int n"
proof (cases "n = 0")
  case True
  then show ?thesis by (simp add: round_binary_def)
next
  case False
  define m where "m = \<bar>n\<bar>"
  with False have m: "0 < m" by simp
  from bitlen_bounds [OF m] have lo: "(2::int) ^ nat (bitlen m - 1) \<le> m" ..
  from m have b1: "1 \<le> bitlen m" by (simp add: bitlen_alt_def)
  from assms have "m < 2 ^ p" by (simp add: m_def)
  with lo have "(2::int) ^ nat (bitlen m - 1) < 2 ^ p" by (rule order_le_less_trans)
  then have "nat (bitlen m - 1) < p" by simp
  with b1 have le: "bitlen m \<le> int p" by simp
  define j where "j = nat (int p - bitlen m)"
  with le have arg: "binary_exponent (of_int m) - int p + 1 = - int j"
    by (simp add: binary_exponent_of_int [OF m])
  have abs: "\<bar>of_int n :: rat\<bar> = of_int m" by (simp add: m_def)
  have "\<bar>of_int n :: rat\<bar> / pow2 (- int j) = of_int (m * 2 ^ j)"
    by (simp add: abs pow2_neg)
  then have "round_binary p (of_int n) = sgn (of_int n) * of_int (m * 2 ^ j) * (1 / 2 ^ j)"
    using False by (simp add: round_binary_def abs arg Let_def pow2_neg del: of_int_mult of_int_power)
  also have "\<dots> = sgn (of_int n) * of_int m" by simp
  also have "\<dots> = of_int n" by (simp only: sgn_mult_abs flip: abs)
  finally show ?thesis .
qed

lemma f_of_int_exact:
  assumes "\<bar>n\<bar> \<le> 16777216"
  shows "f_of_int (binary64_ops hsv) n = of_int n"
proof -
  consider "\<bar>n\<bar> < 2 ^ 24" | "n = 16777216" | "n = - 16777216" using assms by fastforce
  then have "round_binary 24 (of_int n) = of_int n"
  proof cases
    case 1
    then show ?thesis by (rule round_binary_of_int)
  next
    case 2
    have "round_binary 24 16777216 = 16777216" by code_simp
    with 2 show ?thesis by simp
  next
    case 3
    have "round_binary 24 (- 16777216) = - 16777216" by code_simp
    with 3 show ?thesis by simp
  qed
  then show ?thesis by (simp add: binary64_ops_def)
qed

lemma d_of_int_exact:
  assumes "\<bar>n\<bar> < 9007199254740992"
  shows "d_of_int (binary64_ops hsv) n = of_int n"
proof -
  from assms have "\<bar>n\<bar> < 2 ^ 53" by simp
  then have "round_binary 53 (of_int n) = of_int n" by (rule round_binary_of_int)
  then show ?thesis by (simp add: binary64_ops_def)
qed

lemma d_less_binary64 [simp]: "d_less (binary64_ops hsv) a b \<longleftrightarrow> a < b"
  by (simp add: binary64_ops_def)



subsection \<open>The guard\<close>


lemma int_add_in_range:
  "INT_MIN \<le> a + b \<Longrightarrow> a + b \<le> INT_MAX \<Longrightarrow> int_add a b = Inr (a + b)"
  by (simp add: int_add_def)

lemma int_mul_no_division_fault: "int_mul a b \<noteq> Inl DIVISION_BY_ZERO"
  by (simp add: int_mul_def)

lemma int_add_no_division_fault: "int_add a b \<noteq> Inl DIVISION_BY_ZERO"
  by (simp add: int_add_def)

lemma hue_branch_cases:
  assumes "1 < height"
  shows "hue_branch ops snapshot x y width height = Inl INT_OVERFLOW \<or>
     (\<exists>node. hue_branch ops snapshot x y width height = Inr (snapshot @ [node]))"
  using assms
  by (auto simp: hue_branch_def hue_step_def hue_divisor_def int_mul_def split: sum.splits)

lemma alpha_branch_cases:
  "alpha_branch ops scale snapshot x y width height = Inl INT_OVERFLOW \<or>
     (\<exists>nodes. nodes \<noteq> [] \<and> alpha_branch ops scale snapshot x y width height = Inr (snapshot @ nodes))"
  by (auto simp: alpha_branch_def int_add_def Let_def split: sum.splits)

text \<open>
  Claim C10. \<^verbatim>\<open>gtk_color_scale_snapshot_trough\<close> leaves the snapshot as it is when
  \<open>width \<le> 1\<close> or \<open>height \<le> 1\<close>; it never divides by zero; and whenever it does
  anything else, the divisor \<open>height - 1\<close> of the hue branch is at least 1.
\<close>

theorem gtk_color_scale_snapshot_trough_guard:
  "(width \<le> 1 \<or> height \<le> 1 \<longrightarrow>
      gtk_color_scale_snapshot_trough ops scale snapshot x y width height = Inr snapshot) \<and>
   gtk_color_scale_snapshot_trough ops scale snapshot x y width height \<noteq> Inl DIVISION_BY_ZERO \<and>
   (gtk_color_scale_snapshot_trough ops scale snapshot x y width height \<noteq> Inr snapshot \<longrightarrow>
      1 \<le> hue_divisor height)"
proof (cases "width \<le> 1 \<or> height \<le> 1")
  case True
  then show ?thesis by (simp add: gtk_color_scale_snapshot_trough_def)
next
  case False
  then have h: "1 < height" by simp
  have "gtk_color_scale_snapshot_trough ops scale snapshot x y width height \<noteq> Inl DIVISION_BY_ZERO"
    using False hue_branch_cases [OF h, of ops snapshot x y width]
      alpha_branch_cases [of ops scale snapshot x y width height]
    by (cases "scale_type scale") (auto simp: gtk_color_scale_snapshot_trough_def)
  with False h show ?thesis by (simp add: hue_divisor_def)
qed

theorem gtk_color_scale_snapshot_trough_guard_witness:
  "gtk_color_scale_snapshot_trough (binary64_ops grey_levels)
     \<lparr>color = \<lparr>red = 0, green = 0, blue = 0, alpha = 1\<rparr>, scale_type = GTK_COLOR_SCALE_HUE,
      orientation = GTK_ORIENTATION_VERTICAL, direction = GTK_TEXT_DIR_LTR\<rparr> [] 0 0 1 200 = Inr [] \<and>
   gtk_color_scale_snapshot_trough (binary64_ops grey_levels)
     \<lparr>color = \<lparr>red = 0, green = 0, blue = 0, alpha = 1\<rparr>, scale_type = GTK_COLOR_SCALE_HUE,
      orientation = GTK_ORIENTATION_VERTICAL, direction = GTK_TEXT_DIR_LTR\<rparr> [] 0 0 20 2 \<noteq> Inr [] \<and>
   1 \<le> hue_divisor 2"
  using gtk_color_scale_snapshot_trough_guard [of 1 200 "binary64_ops grey_levels"
      "\<lparr>color = \<lparr>red = 0, green = 0, blue = 0, alpha = 1\<rparr>, scale_type = GTK_COLOR_SCALE_HUE,
        orientation = GTK_ORIENTATION_VERTICAL, direction = GTK_TEXT_DIR_LTR\<rparr>" "[]" 0 0]
    gtk_color_scale_snapshot_trough_guard [of 20 2 "binary64_ops grey_levels"
      "\<lparr>color = \<lparr>red = 0, green = 0, blue = 0, alpha = 1\<rparr>, scale_type = GTK_COLOR_SCALE_HUE,
        orientation = GTK_ORIENTATION_VERTICAL, direction = GTK_TEXT_DIR_LTR\<rparr>" "[]" 0 0]
  by (simp add: gtk_color_scale_snapshot_trough_def hue_branch_def hue_step_def hue_divisor_def
      int_mul_def INT_MIN_def INT_MAX_def)

subsection \<open>The alpha gradient\<close>

text \<open>
  Claim C7, amended. For an alpha scale with \<open>width > 1\<close> and \<open>height > 1\<close>, and
  \<open>x + width\<close> in the range of an \<^verbatim>\<open>int\<close>, after \<^verbatim>\<open>gtk_color_scale_set_rgba\<close> with a
  colour \<open>c\<close> the function appends the cairo node of the background and then, over the
  rectangle of the trough, a linear gradient with two stops: \<open>c\<close> with alpha 0 at
  offset 0 and \<open>c\<close> with alpha 1 at offset 1 (0 and 1 are exact as doubles). Its start
  and end points are \<open>(x, y)\<close> and \<open>(x + width, y)\<close> converted to \<^verbatim>\<open>float\<close>, and the
  other way round for a horizontal scale in a right-to-left widget. When \<open>x\<close>,
  \<open>x + width\<close> and \<open>y\<close> lie within \<open>-2^24 .. 2^24\<close> the conversion is exact, the two
  points differ, and so alpha increases from right to left in that case.
\<close>

theorem gtk_color_scale_alpha_gradient:
  "scale_type scale = GTK_COLOR_SCALE_ALPHA \<Longrightarrow> 1 < width \<Longrightarrow> 1 < height \<Longrightarrow>
   INT_MIN \<le> x + width \<Longrightarrow> x + width \<le> INT_MAX \<Longrightarrow>
   gtk_color_scale_snapshot_trough ops (gtk_color_scale_set_rgba scale c) snapshot x y width height =
     Inr (snapshot @
       [Cairo_node (GRAPHENE_RECT_INIT ops x y width height)
          (alpha_background ops
             (orientation scale = GTK_ORIENTATION_HORIZONTAL \<and> direction scale = GTK_TEXT_DIR_RTL)
             x y width),
        Linear_gradient_node (GRAPHENE_RECT_INIT ops x y width height)
          (if orientation scale = GTK_ORIENTATION_HORIZONTAL \<and> direction scale = GTK_TEXT_DIR_RTL
           then graphene_point_init ops (x + width) y else graphene_point_init ops x y)
          (if orientation scale = GTK_ORIENTATION_HORIZONTAL \<and> direction scale = GTK_TEXT_DIR_RTL
           then graphene_point_init ops x y else graphene_point_init ops (x + width) y)
          [(d_of_int ops 0, c\<lparr>alpha := d_of_int ops 0\<rparr>),
           (d_of_int ops 1, c\<lparr>alpha := d_of_int ops 1\<rparr>)]]) \<and>
   d_of_int (binary64_ops hsv) 0 = 0 \<and> d_of_int (binary64_ops hsv) 1 = 1 \<and>
   (- 16777216 \<le> x \<and> x + width \<le> 16777216 \<and> \<bar>y\<bar> \<le> 16777216 \<longrightarrow>
      graphene_point_init (binary64_ops hsv) x y = (of_int x, of_int y) \<and>
      graphene_point_init (binary64_ops hsv) (x + width) y = (of_int (x + width), of_int y) \<and>
      f_of_int (binary64_ops hsv) x < f_of_int (binary64_ops hsv) (x + width))"
proof (intro conjI impI)
  assume "scale_type scale = GTK_COLOR_SCALE_ALPHA" "1 < width" "1 < height"
    "INT_MIN \<le> x + width" "x + width \<le> INT_MAX"
  then show "gtk_color_scale_snapshot_trough ops (gtk_color_scale_set_rgba scale c) snapshot x y width height =
     Inr (snapshot @
       [Cairo_node (GRAPHENE_RECT_INIT ops x y width height)
          (alpha_background ops
             (orientation scale = GTK_ORIENTATION_HORIZONTAL \<and> direction scale = GTK_TEXT_DIR_RTL)
             x y width),
        Linear_gradient_node (GRAPHENE_RECT_INIT ops x y width height)
          (if orientation scale = GTK_ORIENTATION_HORIZONTAL \<and> direction scale = GTK_TEXT_DIR_RTL
           then graphene_point_init ops (x + width) y else graphene_point_init ops x y)
          (if orientation scale = GTK_ORIENTATION_HORIZONTAL \<and> direction scale = GTK_TEXT_DIR_RTL
           then graphene_point_init ops x y else graphene_point_init ops (x + width) y)
          [(d_of_int ops 0, c\<lparr>alpha := d_of_int ops 0\<rparr>),
           (d_of_int ops 1, c\<lparr>alpha := d_of_int ops 1\<rparr>)]])"
    by (simp add: gtk_color_scale_snapshot_trough_def alpha_branch_def gtk_color_scale_set_rgba_def
        int_add_in_range Let_def)
next
  show "d_of_int (binary64_ops hsv) 0 = 0" "d_of_int (binary64_ops hsv) 1 = 1"
    by (simp_all add: d_of_int_exact)
next
  assume w: "1 < width" and b: "- 16777216 \<le> x \<and> x + width \<le> 16777216 \<and> \<bar>y\<bar> \<le> 16777216"
  then have "\<bar>x\<bar> \<le> 16777216" "\<bar>x + width\<bar> \<le> 16777216" "\<bar>y\<bar> \<le> 16777216" by auto
  then have *: "f_of_int (binary64_ops hsv) x = of_int x"
      "f_of_int (binary64_ops hsv) (x + width) = of_int (x + width)"
      "f_of_int (binary64_ops hsv) y = of_int y"
    by (simp_all only: f_of_int_exact)
  show "graphene_point_init (binary64_ops hsv) x y = (of_int x, of_int y)"
    "graphene_point_init (binary64_ops hsv) (x + width) y = (of_int (x + width), of_int y)"
    by (simp_all only: graphene_point_init_def *)
  from w show "f_of_int (binary64_ops hsv) x < f_of_int (binary64_ops hsv) (x + width)"
    by (simp add: *)
qed

theorem gtk_color_scale_alpha_gradient_witness:
  "(1::int) < 100 \<and> (1::int) < 8 \<and> INT_MIN \<le> 10 + 100 \<and> 10 + 100 \<le> INT_MAX \<and>
   - 16777216 \<le> (10::int) \<and> (10::int) + 100 \<le> 16777216 \<and> \<bar>20::int\<bar> \<le> 16777216 \<and>
   f_of_int (binary64_ops grey_levels) 10 < f_of_int (binary64_ops grey_levels) (10 + 100) \<and>
   gtk_color_scale_snapshot_trough (binary64_ops grey_levels)
     (gtk_color_scale_set_rgba
        \<lparr>color = \<lparr>red = 0, green = 0, blue = 0, alpha = 1\<rparr>, scale_type = GTK_COLOR_SCALE_ALPHA,
         orientation = GTK_ORIENTATION_HORIZONTAL, direction = GTK_TEXT_DIR_RTL\<rparr>
        \<lparr>red = 1, green = 1 / 2, blue = 0, alpha = 1\<rparr>)
     [] 10 20 100 8 =
   Inr [Cairo_node (10, 20, 100, 8) (alpha_background (binary64_ops grey_levels) True 10 20 100),
        Linear_gradient_node (10, 20, 100, 8) (110, 20) (10, 20)
          [(0, \<lparr>red = 1, green = 1 / 2, blue = 0, alpha = 0\<rparr>),
           (1, \<lparr>red = 1, green = 1 / 2, blue = 0, alpha = 1\<rparr>)]]"
proof -
  have h: "(1::int) < 100" "(1::int) < 8" "INT_MIN \<le> 10 + 100" "10 + 100 \<le> INT_MAX"
    by (simp_all add: INT_MIN_def INT_MAX_def)
  from gtk_color_scale_alpha_gradient [of
      "\<lparr>color = \<lparr>red = 0, green = 0, blue = 0, alpha = 1\<rparr>, scale_type = GTK_COLOR_SCALE_ALPHA,
        orientation = GTK_ORIENTATION_HORIZONTAL, direction = GTK_TEXT_DIR_RTL\<rparr>"
      100 8 10 "binary64_ops grey_levels" "\<lparr>red = 1, green = 1 / 2, blue = 0, alpha = 1\<rparr>" "[]" 20
      grey_levels, OF _ h]
  show ?thesis using h
    by (simp add: GRAPHENE_RECT_INIT_def graphene_point_init_def f_of_int_exact d_of_int_exact)
qed

text \<open>
  Claim C7 as stated fails for a trough far from the origin. At \<open>x = 2^25\<close> and
  \<open>width = 2\<close> both \<open>x\<close> and \<open>x + width\<close> become the \<^verbatim>\<open>float\<close> \<open>33554432\<close>: the start
  and the end of the gradient are the same point, and alpha does not increase from
  right to left. At \<open>x = INT_MAX\<close> the sum \<open>x + width\<close> leaves the range of \<^verbatim>\<open>int\<close>.
\<close>

theorem alpha_gradient_points_counterexample:
  "gtk_color_scale_snapshot_trough (binary64_ops grey_levels)
     (gtk_color_scale_set_rgba
        \<lparr>color = \<lparr>red = 0, green = 0, blue = 0, alpha = 1\<rparr>, scale_type = GTK_COLOR_SCALE_ALPHA,
         orientation = GTK_ORIENTATION_HORIZONTAL, direction = GTK_TEXT_DIR_RTL\<rparr>
        \<lparr>red = 1, green = 1 / 2, blue = 0, alpha = 1\<rparr>)
     [] 33554432 0 2 2 =
   Inr [Cairo_node (33554432, 0, 2, 2) (alpha_background (binary64_ops grey_levels) True 33554432 0 2),
        Linear_gradient_node (33554432, 0, 2, 2) (33554432, 0) (33554432, 0)
          [(0, \<lparr>red = 1, green = 1 / 2, blue = 0, alpha = 0\<rparr>),
           (1, \<lparr>red = 1, green = 1 / 2, blue = 0, alpha = 1\<rparr>)]] \<and>
   gtk_color_scale_snapshot_trough (binary64_ops grey_levels)
     (gtk_color_scale_set_rgba
        \<lparr>color = \<lparr>red = 0, green = 0, blue = 0, alpha = 1\<rparr>, scale_type = GTK_COLOR_SCALE_ALPHA,
         orientation = GTK_ORIENTATION_HORIZONTAL, direction = GTK_TEXT_DIR_RTL\<rparr>
        \<lparr>red = 1, green = 1 / 2, blue = 0, alpha = 1\<rparr>)
     [] 2147483647 0 2 2 = Inl INT_OVERFLOW"
proof -
  have "round_binary 24 33554434 = 33554432" and "round_binary 24 33554432 = 33554432"
    by code_simp+
  then have "f_of_int (binary64_ops grey_levels) 33554434 = 33554432"
    and "f_of_int (binary64_ops grey_levels) 33554432 = 33554432"
    by (simp_all add: binary64_ops_def)
  then show ?thesis
    by (simp add: gtk_color_scale_snapshot_trough_def alpha_branch_def gtk_color_scale_set_rgba_def
        int_add_def INT_MIN_def INT_MAX_def GRAPHENE_RECT_INIT_def graphene_point_init_def
        f_of_int_exact d_of_int_exact)
qed

subsection \<open>The hue image\<close>


lemma length_concat_blocks:
  "\<forall>xs\<in>set xss. length xs = n \<Longrightarrow> length (concat xss) = length xss * n"
  by (induction xss) simp_all

lemma length_hue_pixel [simp]: "length (hue_pixel ops h) = 3"
  by (simp add: hue_pixel_def split: prod.splits)

lemma length_hue_row [simp]: "length (hue_row ops h width) = nat width * 3"
  using length_concat_blocks [of "replicate (nat width) (hue_pixel ops h)" 3]
  by (simp add: hue_row_def)









end
